theory Spec2Isabelle
  imports Main "HOL-Library.Word"
begin

unbundle bit_operations_syntax

section \<open>Strings and bytes\<close>

text \<open>
  A JavaScript string is a sequence of UTF-16 code units, a \<open>Buffer\<close> a sequence of bytes.
  \<open>ustr\<close> writes an ASCII literal as such a string.
\<close>

type_synonym byte = "8 word"
type_synonym uchar = "16 word"
type_synonym ustring = "uchar list"

definition ustr :: "string \<Rightarrow> ustring" where
  "ustr s = map (\<lambda>c. of_nat (of_char c)) s"

section \<open>The user collection\<close>

text \<open>
  \<open>getUser\<close> and \<open>updateUser\<close> work on the MongoDB collection that
  \<open>DatabaseHelper.getCollection("user", "info")\<close> hands out; \<open>database.js\<close> is not among
  the sources, so the collection is a parameter of both functions. The collection is the
  list of its documents in natural order, with the counter the server draws fresh \<open>_id\<close>
  values from; a document is the list of its fields. Each driver call takes a flag
  \<open>online\<close>: when it is false the call throws, which is what the \<open>try\<close>/\<open>catch\<close> blocks
  of \<open>getUser\<close> and \<open>updateUser\<close> are for.
\<close>

datatype bson = BString ustring | BObjectId nat

type_synonym document = "(string \<times> bson) list"

record collection =
  docs :: "document list"
  next_oid :: nat

text \<open>
  Modelled from the spec: the type \<open>UserFormat\<close> of \<open>user-formats.js\<close>, which is not among
  the sources. It is the spec's account record: identifier, email, first name and last
  name, all strings, the four fields that \<open>updateUser\<close> reads.
\<close>

record UserFormat =
  id' :: ustring
  email :: ustring
  firstname :: ustring
  lastname :: ustring

datatype rejection = UserNotFound | InternalError

datatype driver_error = MongoError

definition empty_collection :: collection where
  "empty_collection = \<lparr>docs = [], next_oid = 0\<rparr>"

text \<open>The query \<open>{ id: userId }\<close>: the document has a field \<open>id\<close> with that string.\<close>

definition matches_id :: "ustring \<Rightarrow> document \<Rightarrow> bool" where
  "matches_id userId d = (map_of d ''id'' = Some (BString userId))"

text \<open>\<open>collection.findOne({ id: userId })\<close>: the first matching document, or null.\<close>

definition findOne :: "bool \<Rightarrow> ustring \<Rightarrow> collection \<Rightarrow> driver_error + document option" where
  "findOne online userId c =
     (if online then Inr (find (matches_id userId) (docs c)) else Inl MongoError)"

definition getUser :: "bool \<Rightarrow> ustring \<Rightarrow> collection \<Rightarrow> rejection + document" where
  "getUser online userId c =
     (case findOne online userId c of
        Inl error \<Rightarrow> Inl InternalError
      | Inr None \<Rightarrow> Inl UserNotFound
      | Inr (Some user) \<Rightarrow> Inr user)"

text \<open>
  The update operator \<open>$set\<close> assigns the listed fields one by one: a field the document
  has keeps its place and takes the new value, a field it lacks is added at the end, and
  every field that is not listed stays as it is.
\<close>

fun set_field :: "string \<Rightarrow> bson \<Rightarrow> document \<Rightarrow> document" where
  "set_field k v [] = [(k, v)]"
| "set_field k v ((k', v') # d) =
     (if k' = k then (k, v) # d else (k', v') # set_field k v d)"

fun apply_set :: "(string \<times> bson) list \<Rightarrow> document \<Rightarrow> document" where
  "apply_set [] d = d"
| "apply_set ((k, v) # kvs) d = apply_set kvs (set_field k v d)"

fun update_first :: "(document \<Rightarrow> bool) \<Rightarrow> (document \<Rightarrow> document) \<Rightarrow> document list
    \<Rightarrow> document list option" where
  "update_first p f [] = None"
| "update_first p f (d # ds) =
     (if p d then Some (f d # ds) else map_option ((#) d) (update_first p f ds))"

text \<open>
  \<open>collection.updateOne({ id: userId }, { $set: fields }, { upsert: true })\<close>: the first
  matching document is updated in place; when none matches, a document is inserted that
  is built from a fresh \<open>_id\<close>, the equality condition of the query and the \<open>$set\<close>.
\<close>

definition updateOne :: "bool \<Rightarrow> ustring \<Rightarrow> (string \<times> bson) list \<Rightarrow> collection
    \<Rightarrow> driver_error + collection" where
  "updateOne online userId sets c =
     (if \<not> online then Inl MongoError
      else case update_first (matches_id userId) (apply_set sets) (docs c) of
        Some ds \<Rightarrow> Inr (c\<lparr>docs := ds\<rparr>)
      | None \<Rightarrow>
          Inr (c\<lparr>docs := docs c @
                  [apply_set sets [(''_id'', BObjectId (next_oid c)), (''id'', BString userId)]],
                next_oid := Suc (next_oid c)\<rparr>))"

definition updateFilter :: "UserFormat \<Rightarrow> (string \<times> bson) list" where
  "updateFilter userData =
     [(''id'', BString (id' userData)),
      (''email'', BString (email userData)),
      (''firstname'', BString (firstname userData)),
      (''lastname'', BString (lastname userData))]"

definition updateUser :: "bool \<Rightarrow> UserFormat \<Rightarrow> collection \<Rightarrow> (rejection + unit) \<times> collection" where
  "updateUser online userData c =
     (case updateOne online (id' userData) (updateFilter userData) c of
        Inl error \<Rightarrow> (Inl InternalError, c)
      | Inr c' \<Rightarrow> (Inr (), c'))"

text \<open>A history of \<open>updateUser\<close> calls, each with the flag of its driver call.\<close>

fun upserts :: "(bool \<times> UserFormat) list \<Rightarrow> collection \<Rightarrow> collection" where
  "upserts [] c = c"
| "upserts ((online, userData) # calls) c = upserts calls (snd (updateUser online userData c))"

section \<open>Base64\<close>

text \<open>
  \<open>buf.toString("base64")\<close> and \<open>digest("base64")\<close>: the standard alphabet
  \<open>A-Z a-z 0-9 + /\<close>, three bytes to four characters, \<open>=\<close> padding.
\<close>

definition b64_char :: "nat \<Rightarrow> uchar" where
  "b64_char v =
     (if v < 26 then of_nat (65 + v)
      else if v < 52 then of_nat (71 + v)
      else if v < 62 then of_nat (v - 4)
      else if v = 62 then 43
      else 47)"

fun base64_encode :: "byte list \<Rightarrow> ustring" where
  "base64_encode (x # y # z # r) =
     b64_char (unat x div 4) # b64_char (unat x mod 4 * 16 + unat y div 16) #
     b64_char (unat y mod 16 * 4 + unat z div 64) # b64_char (unat z mod 64) # base64_encode r"
| "base64_encode [x, y] =
     [b64_char (unat x div 4), b64_char (unat x mod 4 * 16 + unat y div 16),
      b64_char (unat y mod 16 * 4), 61]"
| "base64_encode [x] = [b64_char (unat x div 4), b64_char (unat x mod 4 * 16), 61, 61]"
| "base64_encode [] = []"

text \<open>
  \<open>Buffer.from(s, "base64")\<close> never fails. It reads each code unit of the string by its
  low byte. On base64 text it is the inverse of the encoding; it also accepts \<open>-\<close> and
  \<open>_\<close> for \<open>+\<close> and \<open>/\<close>, steps over characters outside the alphabet, stops at the
  first \<open>=\<close>, and turns an incomplete last group of three or two characters into two
  bytes or one.
\<close>

definition low_byte :: "uchar \<Rightarrow> nat" where
  "low_byte c = unat c mod 256"

definition b64_value :: "uchar \<Rightarrow> nat option" where
  "b64_value c =
     (if 65 \<le> low_byte c \<and> low_byte c \<le> 90 then Some (low_byte c - 65)
      else if 97 \<le> low_byte c \<and> low_byte c \<le> 122 then Some (low_byte c - 71)
      else if 48 \<le> low_byte c \<and> low_byte c \<le> 57 then Some (low_byte c + 4)
      else if low_byte c = 43 \<or> low_byte c = 45 then Some 62
      else if low_byte c = 47 \<or> low_byte c = 95 then Some 63
      else None)"

fun sextets :: "ustring \<Rightarrow> nat list" where
  "sextets [] = []"
| "sextets (c # cs) =
     (if low_byte c = 61 then []
      else case b64_value c of Some v \<Rightarrow> v # sextets cs | None \<Rightarrow> sextets cs)"

fun unsextets :: "nat list \<Rightarrow> byte list" where
  "unsextets (a # b # c # d # r) =
     of_nat (a * 4 + b div 16) # of_nat (b mod 16 * 16 + c div 4) # of_nat (c mod 4 * 64 + d) #
     unsextets r"
| "unsextets [a, b, c] = [of_nat (a * 4 + b div 16), of_nat (b mod 16 * 16 + c div 4)]"
| "unsextets [a, b] = [of_nat (a * 4 + b div 16)]"
| "unsextets _ = []"

definition base64_decode :: "ustring \<Rightarrow> byte list" where
  "base64_decode s = unsextets (sextets s)"

section \<open>UTF-8\<close>

text \<open>
  \<open>Buffer.from(str)\<close>, and the string arguments of \<open>createHmac\<close> and \<open>update\<close>, encode
  the string as UTF-8: a surrogate pair is one code point of four bytes, a surrogate
  without its partner becomes U+FFFD (\<open>EF BF BD\<close>).
\<close>

definition is_high :: "uchar \<Rightarrow> bool" where
  "is_high c = (55296 \<le> unat c \<and> unat c \<le> 56319)"

definition is_low :: "uchar \<Rightarrow> bool" where
  "is_low c = (56320 \<le> unat c \<and> unat c \<le> 57343)"

definition code_point :: "uchar \<Rightarrow> uchar \<Rightarrow> nat" where
  "code_point hi lo = 65536 + (unat hi - 55296) * 1024 + (unat lo - 56320)"

definition utf8_four :: "nat \<Rightarrow> byte list" where
  "utf8_four cp =
     [of_nat (240 + cp div 262144), of_nat (128 + cp div 4096 mod 64),
      of_nat (128 + cp div 64 mod 64), of_nat (128 + cp mod 64)]"

definition utf8_three :: "nat \<Rightarrow> byte list" where
  "utf8_three n = [of_nat (224 + n div 4096), of_nat (128 + n div 64 mod 64), of_nat (128 + n mod 64)]"

definition utf8_two :: "nat \<Rightarrow> byte list" where
  "utf8_two n = [of_nat (192 + n div 64), of_nat (128 + n mod 64)]"

fun utf8_encode :: "ustring \<Rightarrow> byte list" where
  "utf8_encode [] = []"
| "utf8_encode (c # cs) =
     (if unat c < 128 then of_nat (unat c) # utf8_encode cs
      else if unat c < 2048 then utf8_two (unat c) @ utf8_encode cs
      else if is_high c then
        (case cs of
           [] \<Rightarrow> [239, 191, 189]
         | d # ds \<Rightarrow>
             if is_low d then utf8_four (code_point c d) @ utf8_encode ds
             else [239, 191, 189] @ utf8_encode cs)
      else if is_low c then [239, 191, 189] @ utf8_encode cs
      else utf8_three (unat c) @ utf8_encode cs)"

text \<open>
  \<open>buf.toString()\<close> decodes UTF-8 and never fails: every maximal ill-formed byte
  sequence becomes one U+FFFD, and a code point above U+FFFF becomes a surrogate pair.
  \<open>between lo hi b\<close> is the range test on the next byte; the second byte of a sequence
  has a narrower range after \<open>E0\<close>, \<open>ED\<close>, \<open>F0\<close> and \<open>F4\<close>.
\<close>

definition between :: "nat \<Rightarrow> nat \<Rightarrow> byte \<Rightarrow> bool" where
  "between lo hi b = (lo \<le> unat b \<and> unat b \<le> hi)"

definition lower2 :: "byte \<Rightarrow> nat" where
  "lower2 b = (if unat b = 224 then 160 else if unat b = 240 then 144 else 128)"

definition upper2 :: "byte \<Rightarrow> nat" where
  "upper2 b = (if unat b = 237 then 159 else if unat b = 244 then 143 else 191)"

definition utf16_pair :: "nat \<Rightarrow> ustring" where
  "utf16_pair cp = [of_nat (55296 + (cp - 65536) div 1024), of_nat (56320 + (cp - 65536) mod 1024)]"

definition cp2 :: "byte \<Rightarrow> byte \<Rightarrow> nat" where
  "cp2 b b1 = (unat b - 192) * 64 + (unat b1 - 128)"

definition cp3 :: "byte \<Rightarrow> byte \<Rightarrow> byte \<Rightarrow> nat" where
  "cp3 b b1 b2 = ((unat b - 224) * 64 + (unat b1 - 128)) * 64 + (unat b2 - 128)"

definition cp4 :: "byte \<Rightarrow> byte \<Rightarrow> byte \<Rightarrow> byte \<Rightarrow> nat" where
  "cp4 b b1 b2 b3 =
     (((unat b - 240) * 64 + (unat b1 - 128)) * 64 + (unat b2 - 128)) * 64 + (unat b3 - 128)"

fun utf8_decode :: "byte list \<Rightarrow> ustring" where
  "utf8_decode [] = []"
| "utf8_decode (b # bs) =
     (if unat b < 128 then of_nat (unat b) # utf8_decode bs
      else if between 194 223 b then
        (case bs of
           [] \<Rightarrow> [65533]
         | b1 # r1 \<Rightarrow>
             if between 128 191 b1 then of_nat (cp2 b b1) # utf8_decode r1
             else 65533 # utf8_decode bs)
      else if between 224 239 b then
        (case bs of
           [] \<Rightarrow> [65533]
         | b1 # r1 \<Rightarrow>
             if between (lower2 b) (upper2 b) b1 then
               (case r1 of
                  [] \<Rightarrow> [65533]
                | b2 # r2 \<Rightarrow>
                    if between 128 191 b2 then of_nat (cp3 b b1 b2) # utf8_decode r2
                    else 65533 # utf8_decode r1)
             else 65533 # utf8_decode bs)
      else if between 240 244 b then
        (case bs of
           [] \<Rightarrow> [65533]
         | b1 # r1 \<Rightarrow>
             if between (lower2 b) (upper2 b) b1 then
               (case r1 of
                  [] \<Rightarrow> [65533]
                | b2 # r2 \<Rightarrow>
                    if between 128 191 b2 then
                      (case r2 of
                         [] \<Rightarrow> [65533]
                       | b3 # r3 \<Rightarrow>
                           if between 128 191 b3 then utf16_pair (cp4 b b1 b2 b3) @ utf8_decode r3
                           else 65533 # utf8_decode r2)
                    else 65533 # utf8_decode r1)
             else 65533 # utf8_decode bs)
      else 65533 # utf8_decode bs)"

section \<open>HMAC-SHA256\<close>

text \<open>
  \<open>crypto.createHmac("sha256", key).update(msg).digest()\<close>: SHA-256 (FIPS 180-4) on
  32-bit words, written as natural numbers below \<open>2^32\<close> with the wrap-around spelled
  out, and the HMAC construction (RFC 2104) with a block size of 64 bytes. The round
  constants and the initial hash value are given in decimal.
\<close>

type_synonym hstate = "nat \<times> nat \<times> nat \<times> nat \<times> nat \<times> nat \<times> nat \<times> nat"

definition add32 :: "nat \<Rightarrow> nat \<Rightarrow> nat" where
  "add32 x y = (x + y) mod 4294967296"

definition rotr :: "nat \<Rightarrow> nat \<Rightarrow> nat" where
  "rotr n x = x div 2 ^ n + (x mod 2 ^ n) * 2 ^ (32 - n)"

definition Ch :: "nat \<Rightarrow> nat \<Rightarrow> nat \<Rightarrow> nat" where
  "Ch x y z = (x AND y) XOR ((4294967295 - x) AND z)"

definition Maj :: "nat \<Rightarrow> nat \<Rightarrow> nat \<Rightarrow> nat" where
  "Maj x y z = (x AND y) XOR (x AND z) XOR (y AND z)"

definition bsig0 :: "nat \<Rightarrow> nat" where
  "bsig0 x = rotr 2 x XOR rotr 13 x XOR rotr 22 x"

definition bsig1 :: "nat \<Rightarrow> nat" where
  "bsig1 x = rotr 6 x XOR rotr 11 x XOR rotr 25 x"

definition ssig0 :: "nat \<Rightarrow> nat" where
  "ssig0 x = rotr 7 x XOR rotr 18 x XOR x div 2 ^ 3"

definition ssig1 :: "nat \<Rightarrow> nat" where
  "ssig1 x = rotr 17 x XOR rotr 19 x XOR x div 2 ^ 10"

definition K256 :: "nat list" where
  "K256 = [
    1116352408, 1899447441, 3049323471, 3921009573, 961987163, 1508970993,
    2453635748, 2870763221, 3624381080, 310598401, 607225278, 1426881987,
    1925078388, 2162078206, 2614888103, 3248222580, 3835390401, 4022224774,
    264347078, 604807628, 770255983, 1249150122, 1555081692, 1996064986,
    2554220882, 2821834349, 2952996808, 3210313671, 3336571891, 3584528711,
    113926993, 338241895, 666307205, 773529912, 1294757372, 1396182291,
    1695183700, 1986661051, 2177026350, 2456956037, 2730485921, 2820302411,
    3259730800, 3345764771, 3516065817, 3600352804, 4094571909, 275423344,
    430227734, 506948616, 659060556, 883997877, 958139571, 1322822218,
    1537002063, 1747873779, 1955562222, 2024104815, 2227730452, 2361852424,
    2428436474, 2756734187, 3204031479, 3329325298]"

definition H256 :: hstate where
  "H256 = (1779033703, 3144134277, 1013904242, 2773480762,
           1359893119, 2600822924, 528734635, 1541459225)"

text \<open>The message schedule: the window holds the last sixteen words, oldest first.\<close>

definition next_w :: "nat list \<Rightarrow> nat" where
  "next_w ws = add32 (add32 (add32 (ssig1 (ws ! 14)) (ws ! 9)) (ssig0 (ws ! 1))) (ws ! 0)"

fun schedule :: "nat \<Rightarrow> nat list \<Rightarrow> nat list" where
  "schedule 0 ws = ws"
| "schedule (Suc n) ws = hd ws # schedule n (tl ws @ [next_w ws])"

definition T1 :: "nat \<Rightarrow> nat \<Rightarrow> nat \<Rightarrow> nat \<Rightarrow> nat \<Rightarrow> nat \<Rightarrow> nat" where
  "T1 e f g h k w = add32 (add32 (add32 (add32 h (bsig1 e)) (Ch e f g)) k) w"

definition T2 :: "nat \<Rightarrow> nat \<Rightarrow> nat \<Rightarrow> nat" where
  "T2 a b c = add32 (bsig0 a) (Maj a b c)"

definition shift_in :: "nat \<Rightarrow> nat \<Rightarrow> hstate \<Rightarrow> hstate" where
  "shift_in t1 t2 s =
     (case s of (a, b, c, d, e, f, g, h) \<Rightarrow> (add32 t1 t2, a, b, c, add32 d t1, e, f, g))"

fun round_step :: "nat \<Rightarrow> nat \<Rightarrow> hstate \<Rightarrow> hstate" where
  "round_step k w (a, b, c, d, e, f, g, h) =
     shift_in (T1 e f g h k w) (T2 a b c) (a, b, c, d, e, f, g, h)"

fun rounds :: "nat list \<Rightarrow> nat list \<Rightarrow> hstate \<Rightarrow> hstate" where
  "rounds (k # ks) (w # ws) s = rounds ks ws (round_step k w s)"
| "rounds _ _ s = s"

fun be32 :: "byte list \<Rightarrow> nat list" where
  "be32 (a # b # c # d # r) = (((unat a * 256 + unat b) * 256 + unat c) * 256 + unat d) # be32 r"
| "be32 _ = []"

fun add_state :: "hstate \<Rightarrow> hstate \<Rightarrow> hstate" where
  "add_state (a, b, c, d, e, f, g, h) (a', b', c', d', e', f', g', h') =
     (add32 a a', add32 b b', add32 c c', add32 d d',
      add32 e e', add32 f f', add32 g g', add32 h h')"

definition compress :: "hstate \<Rightarrow> byte list \<Rightarrow> hstate" where
  "compress hs blk = add_state hs (rounds K256 (schedule 48 (be32 blk)) hs)"

fun blocks :: "nat \<Rightarrow> hstate \<Rightarrow> byte list \<Rightarrow> hstate" where
  "blocks 0 hs bs = hs"
| "blocks (Suc n) hs bs = blocks n (compress hs (take 64 bs)) (drop 64 bs)"

definition be4 :: "nat \<Rightarrow> byte list" where
  "be4 v = [of_nat (v div 16777216), of_nat (v div 65536 mod 256),
            of_nat (v div 256 mod 256), of_nat (v mod 256)]"

definition be8 :: "nat \<Rightarrow> byte list" where
  "be8 v = be4 (v div 4294967296) @ be4 (v mod 4294967296)"

definition pad :: "byte list \<Rightarrow> byte list" where
  "pad m = m @ [128] @ replicate ((119 - length m mod 64) mod 64) 0 @ be8 (8 * length m)"

fun digest_bytes :: "hstate \<Rightarrow> byte list" where
  "digest_bytes (a, b, c, d, e, f, g, h) =
     be4 a @ be4 b @ be4 c @ be4 d @ be4 e @ be4 f @ be4 g @ be4 h"

definition sha256 :: "byte list \<Rightarrow> byte list" where
  "sha256 m = digest_bytes (blocks (length (pad m) div 64) H256 (pad m))"

definition hmac_key :: "byte list \<Rightarrow> byte list" where
  "hmac_key key =
     (if 64 < length key then sha256 key @ replicate 32 0
      else key @ replicate (64 - length key) 0)"

definition xor_pad :: "byte \<Rightarrow> byte list \<Rightarrow> byte list" where
  "xor_pad p k = map (\<lambda>b. b XOR p) k"

definition hmac_sha256 :: "byte list \<Rightarrow> byte list \<Rightarrow> byte list" where
  "hmac_sha256 key msg =
     sha256 (xor_pad 92 (hmac_key key) @ sha256 (xor_pad 54 (hmac_key key) @ msg))"

section \<open>JSON\<close>

text \<open>
  A JSON value. A number is kept as its literal, the text \<open>JSON.stringify\<close> prints for
  it, so that no floating point is involved; an object is the list of its members in
  the order in which they are printed and read.
\<close>

datatype json =
    JNull
  | JBool bool
  | JNumber ustring
  | JString ustring
  | JArray "json list"
  | JObject "(ustring \<times> json) list"

subsection \<open>\<open>JSON.stringify\<close>\<close>

definition hex_digit :: "nat \<Rightarrow> uchar" where
  "hex_digit v = (if v < 10 then of_nat (48 + v) else of_nat (87 + v))"

definition unicode_escape :: "uchar \<Rightarrow> ustring" where
  "unicode_escape c =
     [92, 117, hex_digit (unat c div 4096), hex_digit (unat c div 256 mod 16),
      hex_digit (unat c div 16 mod 16), hex_digit (unat c mod 16)]"

text \<open>
  The characters of a quoted string: the two-character escapes, \<open>\uXXXX\<close> for the other
  control characters and for a surrogate without its partner, and everything else as it
  is.
\<close>

fun quote_chars :: "ustring \<Rightarrow> ustring" where
  "quote_chars [] = []"
| "quote_chars (c # cs) =
     (if c = 8 then 92 # 98 # quote_chars cs
      else if c = 9 then 92 # 116 # quote_chars cs
      else if c = 10 then 92 # 110 # quote_chars cs
      else if c = 12 then 92 # 102 # quote_chars cs
      else if c = 13 then 92 # 114 # quote_chars cs
      else if c = 34 then 92 # 34 # quote_chars cs
      else if c = 92 then 92 # 92 # quote_chars cs
      else if unat c < 32 then unicode_escape c @ quote_chars cs
      else if is_high c then
        (case cs of
           [] \<Rightarrow> unicode_escape c
         | d # ds \<Rightarrow>
             if is_low d then c # d # quote_chars ds
             else unicode_escape c @ quote_chars cs)
      else if is_low c then unicode_escape c @ quote_chars cs
      else c # quote_chars cs)"

definition quote :: "ustring \<Rightarrow> ustring" where
  "quote s = 34 # quote_chars s @ [34]"

fun JSON_stringify :: "json \<Rightarrow> ustring"
  and stringify_elements :: "json list \<Rightarrow> ustring"
  and stringify_members :: "(ustring \<times> json) list \<Rightarrow> ustring" where
  "JSON_stringify JNull = ustr ''null''"
| "JSON_stringify (JBool b) = (if b then ustr ''true'' else ustr ''false'')"
| "JSON_stringify (JNumber t) = t"
| "JSON_stringify (JString s) = quote s"
| "JSON_stringify (JArray vs) = 91 # stringify_elements vs @ [93]"
| "JSON_stringify (JObject ms) = 123 # stringify_members ms @ [125]"
| "stringify_elements [] = []"
| "stringify_elements [v] = JSON_stringify v"
| "stringify_elements (v # w # vs) = JSON_stringify v @ 44 # stringify_elements (w # vs)"
| "stringify_members [] = []"
| "stringify_members [(k, v)] = quote k @ 58 # JSON_stringify v"
| "stringify_members ((k, v) # m # ms) =
     quote k @ 58 # JSON_stringify v @ 44 # stringify_members (m # ms)"

subsection \<open>\<open>JSON.parse\<close>: the tokens\<close>

datatype lexeme =
    TLBrace | TRBrace | TLBracket | TRBracket | TColon | TComma
  | TString ustring | TNumber ustring | TTrue | TFalse | TNull

definition hex_value :: "uchar \<Rightarrow> nat option" where
  "hex_value c =
     (if 48 \<le> unat c \<and> unat c \<le> 57 then Some (unat c - 48)
      else if 97 \<le> unat c \<and> unat c \<le> 102 then Some (unat c - 87)
      else if 65 \<le> unat c \<and> unat c \<le> 70 then Some (unat c - 55)
      else None)"

definition hex4 :: "uchar \<Rightarrow> uchar \<Rightarrow> uchar \<Rightarrow> uchar \<Rightarrow> uchar option" where
  "hex4 a b c d =
     (case (hex_value a, hex_value b, hex_value c, hex_value d) of
        (Some x, Some y, Some z, Some w) \<Rightarrow> Some (of_nat (((x * 16 + y) * 16 + z) * 16 + w))
      | _ \<Rightarrow> None)"

fun prepend :: "uchar \<Rightarrow> (ustring \<times> ustring) option \<Rightarrow> (ustring \<times> ustring) option" where
  "prepend c None = None"
| "prepend c (Some (s, r)) = Some (c # s, r)"

text \<open>
  The characters of a string literal after its opening quote: the decoded string and the
  input after the closing quote. A raw control character, an unknown escape and a
  missing closing quote are syntax errors.
\<close>

fun lex_string :: "ustring \<Rightarrow> (ustring \<times> ustring) option" where
  "lex_string [] = None"
| "lex_string (c # cs) =
     (if c = 34 then Some ([], cs)
      else if c = 92 then
        (case cs of
           [] \<Rightarrow> None
         | e # r \<Rightarrow>
             if e = 34 then prepend 34 (lex_string r)
             else if e = 92 then prepend 92 (lex_string r)
             else if e = 47 then prepend 47 (lex_string r)
             else if e = 98 then prepend 8 (lex_string r)
             else if e = 102 then prepend 12 (lex_string r)
             else if e = 110 then prepend 10 (lex_string r)
             else if e = 114 then prepend 13 (lex_string r)
             else if e = 116 then prepend 9 (lex_string r)
             else if e = 117 then
               (case r of
                  h1 # h2 # h3 # h4 # r' \<Rightarrow>
                    (case hex4 h1 h2 h3 h4 of
                       None \<Rightarrow> None
                     | Some u \<Rightarrow> prepend u (lex_string r'))
                | _ \<Rightarrow> None)
             else None)
      else if unat c < 32 then None
      else prepend c (lex_string cs))"

text \<open>
  A number literal \<open>-?(0|[1-9][0-9]*)(.[0-9]+)?([eE][+-]?[0-9]+)?\<close>, taken as long as it
  goes: the literal and the input after it.
\<close>

definition is_digit :: "uchar \<Rightarrow> bool" where
  "is_digit c = (48 \<le> unat c \<and> unat c \<le> 57)"

definition lex_sign :: "ustring \<Rightarrow> ustring \<times> ustring" where
  "lex_sign s = (case s of [] \<Rightarrow> ([], []) | c # cs \<Rightarrow> if c = 45 then ([c], cs) else ([], s))"

definition lex_digits :: "ustring \<Rightarrow> (ustring \<times> ustring) option" where
  "lex_digits s =
     (if takeWhile is_digit s = [] then None
      else Some (takeWhile is_digit s, dropWhile is_digit s))"

definition lex_int :: "ustring \<Rightarrow> (ustring \<times> ustring) option" where
  "lex_int s = (case s of [] \<Rightarrow> None | c # cs \<Rightarrow> if c = 48 then Some ([c], cs) else lex_digits s)"

definition lex_frac :: "ustring \<Rightarrow> (ustring \<times> ustring) option" where
  "lex_frac s =
     (case s of
        [] \<Rightarrow> Some ([], [])
      | c # cs \<Rightarrow>
          if c = 46 then map_option (\<lambda>(ds, r). (c # ds, r)) (lex_digits cs)
          else Some ([], s))"

definition lex_exp :: "ustring \<Rightarrow> (ustring \<times> ustring) option" where
  "lex_exp s =
     (case s of
        [] \<Rightarrow> Some ([], [])
      | c # cs \<Rightarrow>
          if c = 101 \<or> c = 69 then
            (case cs of
               [] \<Rightarrow> None
             | g # ds \<Rightarrow>
                 if g = 43 \<or> g = 45 then map_option (\<lambda>(t, r). (c # g # t, r)) (lex_digits ds)
                 else map_option (\<lambda>(t, r). (c # t, r)) (lex_digits cs))
          else Some ([], s))"

definition lex_number :: "ustring \<Rightarrow> (ustring \<times> ustring) option" where
  "lex_number s =
     (case lex_sign s of (sg, s1) \<Rightarrow>
        (case lex_int s1 of
           None \<Rightarrow> None
         | Some (ip, s2) \<Rightarrow>
             (case lex_frac s2 of
                None \<Rightarrow> None
              | Some (fp, s3) \<Rightarrow>
                  (case lex_exp s3 of
                     None \<Rightarrow> None
                   | Some (ep, s4) \<Rightarrow> Some (sg @ ip @ fp @ ep, s4)))))"

definition is_ws :: "uchar \<Rightarrow> bool" where
  "is_ws c = (c = 32 \<or> c = 9 \<or> c = 10 \<or> c = 13)"

fun strip_prefix :: "ustring \<Rightarrow> ustring \<Rightarrow> ustring option" where
  "strip_prefix [] s = Some s"
| "strip_prefix (p # ps) [] = None"
| "strip_prefix (p # ps) (c # cs) = (if p = c then strip_prefix ps cs else None)"

fun cons_token :: "lexeme \<Rightarrow> lexeme list option \<Rightarrow> lexeme list option" where
  "cons_token t None = None"
| "cons_token t (Some ts) = Some (t # ts)"

function tokenize :: "ustring \<Rightarrow> lexeme list option" where
  "tokenize [] = Some []"
| "tokenize (c # cs) =
     (if is_ws c then tokenize cs
      else if c = 123 then cons_token TLBrace (tokenize cs)
      else if c = 125 then cons_token TRBrace (tokenize cs)
      else if c = 91 then cons_token TLBracket (tokenize cs)
      else if c = 93 then cons_token TRBracket (tokenize cs)
      else if c = 58 then cons_token TColon (tokenize cs)
      else if c = 44 then cons_token TComma (tokenize cs)
      else if c = 34 then
        (case lex_string cs of
           None \<Rightarrow> None
         | Some (s, r) \<Rightarrow> cons_token (TString s) (tokenize r))
      else if c = 45 \<or> is_digit c then
        (case lex_number (c # cs) of
           None \<Rightarrow> None
         | Some (t, r) \<Rightarrow> cons_token (TNumber t) (tokenize r))
      else if c = 116 then
        (case strip_prefix (ustr ''rue'') cs of
           None \<Rightarrow> None
         | Some r \<Rightarrow> cons_token TTrue (tokenize r))
      else if c = 102 then
        (case strip_prefix (ustr ''alse'') cs of
           None \<Rightarrow> None
         | Some r \<Rightarrow> cons_token TFalse (tokenize r))
      else if c = 110 then
        (case strip_prefix (ustr ''ull'') cs of
           None \<Rightarrow> None
         | Some r \<Rightarrow> cons_token TNull (tokenize r))
      else None)"
  by pat_completeness auto
termination
proof (relation "measure length")
  have prep: "\<And>c x s r. prepend c x = Some (s, r) \<Longrightarrow> \<exists>s'. x = Some (s', r)"
  proof -
    fix c x s r
    show "prepend c x = Some (s, r) \<Longrightarrow> \<exists>s'. x = Some (s', r)"
      by (cases x) auto
  qed
  have esc: "\<And>c cs s r. lex_string (c # cs) = Some (s, r) \<Longrightarrow>
      (c = 34 \<and> s = [] \<and> r = cs) \<or>
      (c \<noteq> 34 \<and> c \<noteq> 92 \<and> (\<exists>x. prepend x (lex_string cs) = Some (s, r))) \<or>
      (c = 92 \<and> (\<exists>e r0 x. cs = e # r0 \<and> e \<noteq> 117 \<and> prepend x (lex_string r0) = Some (s, r))) \<or>
      (c = 92 \<and> (\<exists>h1 h2 h3 h4 r' x. cs = 117 # h1 # h2 # h3 # h4 # r' \<and>
           prepend x (lex_string r') = Some (s, r)))"
  proof -
    fix c cs s r
    assume a: "lex_string (c # cs) = Some (s, r)"
    show "(c = 34 \<and> s = [] \<and> r = cs) \<or>
      (c \<noteq> 34 \<and> c \<noteq> 92 \<and> (\<exists>x. prepend x (lex_string cs) = Some (s, r))) \<or>
      (c = 92 \<and> (\<exists>e r0 x. cs = e # r0 \<and> e \<noteq> 117 \<and> prepend x (lex_string r0) = Some (s, r))) \<or>
      (c = 92 \<and> (\<exists>h1 h2 h3 h4 r' x. cs = 117 # h1 # h2 # h3 # h4 # r' \<and>
           prepend x (lex_string r') = Some (s, r)))"
    proof (cases "c = 34")
      case True
      with a show ?thesis by simp
    next
      case q: False
      show ?thesis
      proof (cases "c = 92")
        case False
        with q a show ?thesis by (auto split: if_splits)
      next
        case True
        with a obtain e r0 where cs: "cs = e # r0" by (cases cs) auto
        show ?thesis
        proof (cases "e = 117")
          case False
          with True cs a show ?thesis by (simp split: if_splits) blast+
        next
          case u: True
          with True cs a obtain h1 h2 h3 h4 r' where r0: "r0 = h1 # h2 # h3 # h4 # r'"
            by (auto split: list.splits)
          with True cs u a show ?thesis by (auto split: option.splits)
        qed
      qed
    qed
  qed
  have str: "\<And>cs s r. lex_string cs = Some (s, r) \<Longrightarrow> length r < length cs"
  proof -
    fix cs s r
    show "lex_string cs = Some (s, r) \<Longrightarrow> length r < length cs"
    proof (induction cs arbitrary: s rule: length_induct)
      case (1 cs)
      have step: "\<And>x r' s'. prepend x (lex_string r') = Some (s', r) \<Longrightarrow> length r' < length cs
          \<Longrightarrow> length r < length cs"
      proof -
        fix x r' s'
        assume p: "prepend x (lex_string r') = Some (s', r)" and l: "length r' < length cs"
        from prep [OF p] obtain s'' where "lex_string r' = Some (s'', r)" by blast
        with "1.IH" l have "length r < length r'" by blast
        with l show "length r < length cs" by simp
      qed
      show ?case
      proof (cases cs)
        case Nil
        with "1.prems" show ?thesis by simp
      next
        case (Cons c cs')
        from esc [OF "1.prems" [unfolded Cons]] show ?thesis
          unfolding Cons using step [unfolded Cons] by (elim disjE conjE exE) auto
      qed
    qed
  qed
  have dig: "\<And>s t r. lex_digits s = Some (t, r) \<Longrightarrow> length r < length s"
  proof -
    fix s t r
    assume "lex_digits s = Some (t, r)"
    then have t: "t = takeWhile is_digit s" "r = dropWhile is_digit s" "t \<noteq> []"
      by (auto simp: lex_digits_def split: if_splits)
    have "length t + length r = length s"
      unfolding t(1,2) by (metis length_append takeWhile_dropWhile_id)
    with t(3) show "length r < length s" by (cases t) auto
  qed
  have num: "\<And>s t r. lex_number s = Some (t, r) \<Longrightarrow> length r < length s"
  proof -
    fix s t r
    assume n: "lex_number s = Some (t, r)"
    obtain sg s1 where sg: "lex_sign s = (sg, s1)" by (cases "lex_sign s")
    then have l1: "length s1 \<le> length s"
      by (auto simp: lex_sign_def split: list.splits if_splits)
    from n sg obtain ip s2 where ip: "lex_int s1 = Some (ip, s2)"
      by (auto simp: lex_number_def split: option.splits)
    then have l2: "length s2 < length s1"
      by (auto simp: lex_int_def split: list.splits if_splits dest: dig)
    from n sg ip obtain fp s3 where fp: "lex_frac s2 = Some (fp, s3)"
      by (auto simp: lex_number_def split: option.splits)
    then have l3: "length s3 \<le> length s2"
      by (auto simp: lex_frac_def split: list.splits if_splits dest!: dig)
    from n sg ip fp obtain ep where ep: "lex_exp s3 = Some (ep, r)"
      by (auto simp: lex_number_def split: option.splits)
    then have l4: "length r \<le> length s3"
      by (auto simp: lex_exp_def split: list.splits if_splits dest!: dig)
    from l1 l2 l3 l4 show "length r < length s" by simp
  qed
  have pre: "\<And>p cs r. strip_prefix p cs = Some r \<Longrightarrow> length r \<le> length cs"
  proof -
    fix p cs r
    show "strip_prefix p cs = Some r \<Longrightarrow> length r \<le> length cs"
      by (induction p cs rule: strip_prefix.induct) (auto split: if_splits)
  qed
  show "wf (measure length)" by simp
  show "\<And>c cs. is_ws c \<Longrightarrow> (cs, c # cs) \<in> measure length" by simp
  show "\<And>c cs. \<not> is_ws c \<Longrightarrow> c = 123 \<Longrightarrow> (cs, c # cs) \<in> measure length" by simp
  show "\<And>c cs. \<not> is_ws c \<Longrightarrow> c \<noteq> 123 \<Longrightarrow> c = 125 \<Longrightarrow> (cs, c # cs) \<in> measure length" by simp
  show "\<And>c cs. \<not> is_ws c \<Longrightarrow> c \<noteq> 123 \<Longrightarrow> c \<noteq> 125 \<Longrightarrow> c = 91 \<Longrightarrow> (cs, c # cs) \<in> measure length"
    by simp
  show "\<And>c cs. \<not> is_ws c \<Longrightarrow> c \<noteq> 123 \<Longrightarrow> c \<noteq> 125 \<Longrightarrow> c \<noteq> 91 \<Longrightarrow> c = 93
      \<Longrightarrow> (cs, c # cs) \<in> measure length"
    by simp
  show "\<And>c cs. \<not> is_ws c \<Longrightarrow> c \<noteq> 123 \<Longrightarrow> c \<noteq> 125 \<Longrightarrow> c \<noteq> 91 \<Longrightarrow> c \<noteq> 93 \<Longrightarrow> c = 58
      \<Longrightarrow> (cs, c # cs) \<in> measure length"
    by simp
  show "\<And>c cs. \<not> is_ws c \<Longrightarrow> c \<noteq> 123 \<Longrightarrow> c \<noteq> 125 \<Longrightarrow> c \<noteq> 91 \<Longrightarrow> c \<noteq> 93 \<Longrightarrow> c \<noteq> 58
      \<Longrightarrow> c = 44 \<Longrightarrow> (cs, c # cs) \<in> measure length"
    by simp
  show "\<And>c cs x2 x y. \<not> is_ws c \<Longrightarrow> c \<noteq> 123 \<Longrightarrow> c \<noteq> 125 \<Longrightarrow> c \<noteq> 91 \<Longrightarrow> c \<noteq> 93
      \<Longrightarrow> c \<noteq> 58 \<Longrightarrow> c \<noteq> 44 \<Longrightarrow> c = 34 \<Longrightarrow> lex_string cs = Some x2 \<Longrightarrow> (x, y) = x2
      \<Longrightarrow> (y, c # cs) \<in> measure length"
    using str by fastforce
  show "\<And>c cs x2 x y. \<not> is_ws c \<Longrightarrow> c \<noteq> 123 \<Longrightarrow> c \<noteq> 125 \<Longrightarrow> c \<noteq> 91 \<Longrightarrow> c \<noteq> 93
      \<Longrightarrow> c \<noteq> 58 \<Longrightarrow> c \<noteq> 44 \<Longrightarrow> c \<noteq> 34 \<Longrightarrow> c = 45 \<or> is_digit c
      \<Longrightarrow> lex_number (c # cs) = Some x2 \<Longrightarrow> (x, y) = x2 \<Longrightarrow> (y, c # cs) \<in> measure length"
    using num by fastforce
  show "\<And>c cs x2. \<not> is_ws c \<Longrightarrow> c \<noteq> 123 \<Longrightarrow> c \<noteq> 125 \<Longrightarrow> c \<noteq> 91 \<Longrightarrow> c \<noteq> 93
      \<Longrightarrow> c \<noteq> 58 \<Longrightarrow> c \<noteq> 44 \<Longrightarrow> c \<noteq> 34 \<Longrightarrow> \<not> (c = 45 \<or> is_digit c) \<Longrightarrow> c = 116
      \<Longrightarrow> strip_prefix (ustr ''rue'') cs = Some x2 \<Longrightarrow> (x2, c # cs) \<in> measure length"
    using pre by fastforce
  show "\<And>c cs x2. \<not> is_ws c \<Longrightarrow> c \<noteq> 123 \<Longrightarrow> c \<noteq> 125 \<Longrightarrow> c \<noteq> 91 \<Longrightarrow> c \<noteq> 93
      \<Longrightarrow> c \<noteq> 58 \<Longrightarrow> c \<noteq> 44 \<Longrightarrow> c \<noteq> 34 \<Longrightarrow> \<not> (c = 45 \<or> is_digit c) \<Longrightarrow> c \<noteq> 116
      \<Longrightarrow> c = 102 \<Longrightarrow> strip_prefix (ustr ''alse'') cs = Some x2 \<Longrightarrow> (x2, c # cs) \<in> measure length"
    using pre by fastforce
  show "\<And>c cs x2. \<not> is_ws c \<Longrightarrow> c \<noteq> 123 \<Longrightarrow> c \<noteq> 125 \<Longrightarrow> c \<noteq> 91 \<Longrightarrow> c \<noteq> 93
      \<Longrightarrow> c \<noteq> 58 \<Longrightarrow> c \<noteq> 44 \<Longrightarrow> c \<noteq> 34 \<Longrightarrow> \<not> (c = 45 \<or> is_digit c) \<Longrightarrow> c \<noteq> 116
      \<Longrightarrow> c \<noteq> 102 \<Longrightarrow> c = 110 \<Longrightarrow> strip_prefix (ustr ''ull'') cs = Some x2
      \<Longrightarrow> (x2, c # cs) \<in> measure length"
    using pre by fastforce
qed

subsection \<open>\<open>JSON.parse\<close>: the grammar\<close>

text \<open>
  The tokens are read one by one against a stack of open arrays and objects. The top
  frame tells what may come next: a value, a separator, a key, a colon or a closing
  bracket. An empty stack expects the one top-level value.
\<close>

datatype frame =
    ArrStart
  | ArrNext "json list"
  | ArrAfter "json list"
  | ObjStart
  | ObjKey "(ustring \<times> json) list"
  | ObjColon "(ustring \<times> json) list" ustring
  | ObjValue "(ustring \<times> json) list" ustring
  | ObjAfter "(ustring \<times> json) list"

datatype pstate = Run "frame list" | Done json

text \<open>A finished value goes to the frame that waits for it (lists are kept reversed).\<close>

fun push_value :: "json \<Rightarrow> frame list \<Rightarrow> pstate option" where
  "push_value v [] = Some (Done v)"
| "push_value v (ArrStart # st) = Some (Run (ArrAfter [v] # st))"
| "push_value v (ArrNext vs # st) = Some (Run (ArrAfter (v # vs) # st))"
| "push_value v (ObjValue ms k # st) = Some (Run (ObjAfter ((k, v) # ms) # st))"
| "push_value v (_ # st) = None"

fun start_value :: "lexeme \<Rightarrow> frame list \<Rightarrow> pstate option" where
  "start_value TLBracket st = Some (Run (ArrStart # st))"
| "start_value TLBrace st = Some (Run (ObjStart # st))"
| "start_value (TString s) st = push_value (JString s) st"
| "start_value (TNumber t) st = push_value (JNumber t) st"
| "start_value TTrue st = push_value (JBool True) st"
| "start_value TFalse st = push_value (JBool False) st"
| "start_value TNull st = push_value JNull st"
| "start_value _ st = None"

fun step :: "frame list \<Rightarrow> lexeme \<Rightarrow> pstate option" where
  "step [] t = start_value t []"
| "step (ArrStart # st) t =
     (if t = TRBracket then push_value (JArray []) st else start_value t (ArrStart # st))"
| "step (ArrNext vs # st) t = start_value t (ArrNext vs # st)"
| "step (ArrAfter vs # st) t =
     (if t = TComma then Some (Run (ArrNext vs # st))
      else if t = TRBracket then push_value (JArray (rev vs)) st
      else None)"
| "step (ObjStart # st) t =
     (case t of
        TString k \<Rightarrow> Some (Run (ObjColon [] k # st))
      | TRBrace \<Rightarrow> push_value (JObject []) st
      | _ \<Rightarrow> None)"
| "step (ObjKey ms # st) t =
     (case t of TString k \<Rightarrow> Some (Run (ObjColon ms k # st)) | _ \<Rightarrow> None)"
| "step (ObjColon ms k # st) t = (if t = TColon then Some (Run (ObjValue ms k # st)) else None)"
| "step (ObjValue ms k # st) t = start_value t (ObjValue ms k # st)"
| "step (ObjAfter ms # st) t =
     (if t = TComma then Some (Run (ObjKey ms # st))
      else if t = TRBrace then push_value (JObject (rev ms)) st
      else None)"

fun run :: "pstate \<Rightarrow> lexeme list \<Rightarrow> pstate option" where
  "run s [] = Some s"
| "run (Done v) (t # ts) = None"
| "run (Run st) (t # ts) = (case step st t of None \<Rightarrow> None | Some s \<Rightarrow> run s ts)"

definition parse_tokens :: "lexeme list \<Rightarrow> json option" where
  "parse_tokens ts = (case run (Run []) ts of Some (Done v) \<Rightarrow> Some v | _ \<Rightarrow> None)"

text \<open>
  \<open>JSON.parse(text)\<close>: \<open>None\<close> stands for the \<open>SyntaxError\<close> it throws. The result is
  the value as the text writes it: the members of an object in the order of the text,
  with every occurrence of a repeated key, and each number as its literal. \<open>JSON.parse\<close>
  builds the JavaScript value from that (the last of repeated keys wins, integer-like
  keys come first, numbers are rounded to doubles); the two agree on the text that
  \<open>JSON_stringify\<close> prints for a value whose objects have no repeated and no integer-like
  keys.
\<close>

definition JSON_parse :: "ustring \<Rightarrow> json option" where
  "JSON_parse text = (case tokenize text of None \<Rightarrow> None | Some ts \<Rightarrow> parse_tokens ts)"

section \<open>The token codec\<close>

text \<open>\<open>str.split(sep)\<close> for a one-character separator: the pieces between all its occurrences.\<close>

fun split_str :: "uchar \<Rightarrow> ustring \<Rightarrow> ustring list" where
  "split_str sep [] = [[]]"
| "split_str sep (c # cs) =
     (if c = sep then [] # split_str sep cs
      else case split_str sep cs of [] \<Rightarrow> [[c]] | s # ss \<Rightarrow> (c # s) # ss)"

text \<open>
  \<open>crypto.createHmac("sha256", secretKey).update(encodedPayload).digest("base64")\<close>:
  both strings enter as UTF-8.
\<close>

definition createHmac_digest :: "ustring \<Rightarrow> ustring \<Rightarrow> ustring" where
  "createHmac_digest secretKey msg =
     base64_encode (hmac_sha256 (utf8_encode secretKey) (utf8_encode msg))"

text \<open>
  What \<open>decodeToken\<close> throws: an \<open>Error\<close> with its message, or the \<open>SyntaxError\<close> of
  \<open>JSON.parse\<close>, which it does not catch.
\<close>

datatype exn = Error string | SyntaxError

text \<open>
  \<open>const [encodedPayload, signature] = token.split(".")\<close> takes the first two pieces;
  with one piece only the signature is \<open>undefined\<close>. \<open>!x\<close> holds for \<open>undefined\<close> and for
  the empty string. The cast of the parsed value to \<open>Payload\<close> checks nothing at run
  time, so any JSON value is returned.
\<close>

definition decodeToken :: "ustring \<Rightarrow> ustring \<Rightarrow> exn + json" where
  "decodeToken token secretKey =
     (case split_str 46 token of
        encodedPayload # signature # rest \<Rightarrow>
          if encodedPayload = [] \<or> signature = [] then Inl (Error ''Invalid token format'')
          else
            let expectedSignature = createHmac_digest secretKey encodedPayload
            in if signature \<noteq> expectedSignature then Inl (Error ''Invalid token'')
               else case JSON_parse (utf8_decode (base64_decode encodedPayload)) of
                      None \<Rightarrow> Inl SyntaxError
                    | Some payload \<Rightarrow> Inr payload
      | _ \<Rightarrow> Inl (Error ''Invalid token format''))"

text \<open>
  \<open>encodeToken\<close> returns the object \<open>{ token }\<close>; it never sets \<open>context\<close>. An object of
  the payload is written as the list of its members.
\<close>

record token_result =
  token :: ustring

definition encodeToken :: "ustring \<Rightarrow> json \<Rightarrow> ustring \<Rightarrow> token_result" where
  "encodeToken user data secretKey =
     (let payload = JObject [(ustr ''user'', JString user), (ustr ''data'', data)];
          encodedPayload = base64_encode (utf8_encode (JSON_stringify payload));
          signature = createHmac_digest secretKey encodedPayload
      in \<lparr>token = encodedPayload @ 46 # signature\<rparr>)"

text \<open>The first piece of a token of \<open>encodeToken\<close>: its \<open>encodedPayload\<close>.\<close>

definition encodedPayload_of :: "ustring \<Rightarrow> json \<Rightarrow> ustring" where
  "encodedPayload_of user data =
     base64_encode (utf8_encode (JSON_stringify
       (JObject [(ustr ''user'', JString user), (ustr ''data'', data)])))"

section \<open>Notions for the round trip\<close>

text \<open>
  A string is well-formed UTF-16 when every surrogate belongs to a pair. A value is
  serializable when its numbers are JSON number literals. \<open>lexemes\<close> lists the tokens of
  the text that \<open>JSON_stringify\<close> prints for a value.
\<close>

fun well_formed :: "ustring \<Rightarrow> bool" where
  "well_formed [] = True"
| "well_formed (c # cs) =
     (if is_high c then (case cs of [] \<Rightarrow> False | d # ds \<Rightarrow> is_low d \<and> well_formed ds)
      else \<not> is_low c \<and> well_formed cs)"

fun serializable :: "json \<Rightarrow> bool"
  and serializable_elements :: "json list \<Rightarrow> bool"
  and serializable_members :: "(ustring \<times> json) list \<Rightarrow> bool" where
  "serializable JNull = True"
| "serializable (JBool b) = True"
| "serializable (JNumber t) = (lex_number t = Some (t, []))"
| "serializable (JString s) = True"
| "serializable (JArray vs) = serializable_elements vs"
| "serializable (JObject ms) = serializable_members ms"
| "serializable_elements [] = True"
| "serializable_elements (v # vs) = (serializable v \<and> serializable_elements vs)"
| "serializable_members [] = True"
| "serializable_members ((k, v) # ms) = (serializable v \<and> serializable_members ms)"

fun lexemes :: "json \<Rightarrow> lexeme list"
  and lexemes_elements :: "json list \<Rightarrow> lexeme list"
  and lexemes_members :: "(ustring \<times> json) list \<Rightarrow> lexeme list" where
  "lexemes JNull = [TNull]"
| "lexemes (JBool b) = [if b then TTrue else TFalse]"
| "lexemes (JNumber t) = [TNumber t]"
| "lexemes (JString s) = [TString s]"
| "lexemes (JArray vs) = TLBracket # lexemes_elements vs @ [TRBracket]"
| "lexemes (JObject ms) = TLBrace # lexemes_members ms @ [TRBrace]"
| "lexemes_elements [] = []"
| "lexemes_elements [v] = lexemes v"
| "lexemes_elements (v # w # vs) = lexemes v @ TComma # lexemes_elements (w # vs)"
| "lexemes_members [] = []"
| "lexemes_members [(k, v)] = TString k # TColon # lexemes v"
| "lexemes_members ((k, v) # m # ms) =
     TString k # TColon # lexemes v @ TComma # lexemes_members (m # ms)"

text \<open>What may follow a number literal in the text without becoming part of it.\<close>

definition number_end :: "ustring \<Rightarrow> bool" where
  "number_end r =
     (case r of [] \<Rightarrow> True | c # cs \<Rightarrow> \<not> is_digit c \<and> c \<noteq> 46 \<and> c \<noteq> 101 \<and> c \<noteq> 69)"

definition ascii :: "uchar \<Rightarrow> bool" where
  "ascii c = (unat c < 128)"

text \<open>The stacks on which the grammar expects a value next.\<close>

fun value_pos :: "frame list \<Rightarrow> bool" where
  "value_pos [] = True"
| "value_pos (ArrStart # st) = True"
| "value_pos (ArrNext vs # st) = True"
| "value_pos (ObjValue ms k # st) = True"
| "value_pos (_ # st) = False"

section \<open>Properties of the user collection\<close>

lemma map_of_set_field: "map_of (set_field k v d) = (map_of d)(k \<mapsto> v)"
  by (induction d) (auto simp: fun_eq_iff)

lemma map_of_apply_set: "map_of (apply_set kvs d) = map_of d ++ map_of (rev kvs)"
proof (induction kvs arbitrary: d)
  case Nil
  show ?case by simp
next
  case (Cons kv kvs)
  obtain k v where kv: "kv = (k, v)" by (cases kv)
  show ?case
    unfolding kv apply_set.simps Cons.IH map_of_set_field
    by (auto simp: fun_eq_iff map_add_def split: option.splits)
qed

lemma map_of_updateFilter:
  "map_of (apply_set (updateFilter r) d) =
     (map_of d)(''id'' \<mapsto> BString (id' r), ''email'' \<mapsto> BString (email r),
       ''firstname'' \<mapsto> BString (firstname r), ''lastname'' \<mapsto> BString (lastname r))"
  by (simp add: updateFilter_def map_of_set_field)

lemma matches_id_updateFilter: "matches_id (id' r) (apply_set (updateFilter r) d)"
  by (simp add: matches_id_def map_of_updateFilter)

lemma update_first_none:
  "list_all (\<lambda>x. \<not> p x) ds \<Longrightarrow> update_first p f ds = None"
  by (induction ds) auto

lemma update_first_hit:
  "list_all (\<lambda>x. \<not> p x) pre \<Longrightarrow> p d \<Longrightarrow> update_first p f (pre @ d # post) = Some (pre @ f d # post)"
  by (induction pre) auto

lemma find_first_hit:
  "list_all (\<lambda>x. \<not> p x) pre \<Longrightarrow> p d \<Longrightarrow> find p (pre @ d # post) = Some d"
  by (induction pre) auto

lemma split_first_match:
  "\<not> list_all (\<lambda>x. \<not> p x) ds \<Longrightarrow>
     \<exists>pre d post. ds = pre @ d # post \<and> list_all (\<lambda>x. \<not> p x) pre \<and> p d"
proof (induction ds)
  case Nil
  then show ?case by simp
next
  case (Cons a ds)
  show ?case
  proof (cases "p a")
    case True
    then have "a # ds = [] @ a # ds \<and> list_all (\<lambda>x. \<not> p x) [] \<and> p a" by simp
    then show ?thesis by blast
  next
    case False
    with Cons.prems have "\<not> list_all (\<lambda>x. \<not> p x) ds" by simp
    from Cons.IH [OF this] obtain pre d post
      where "ds = pre @ d # post" "list_all (\<lambda>x. \<not> p x) pre" "p d" by blast
    with False have "a # ds = (a # pre) @ d # post \<and> list_all (\<lambda>x. \<not> p x) (a # pre) \<and> p d"
      by simp
    then show ?thesis by blast
  qed
qed

lemma updateUser_hit:
  assumes "docs c = pre @ d # post" "list_all (\<lambda>x. \<not> matches_id (id' r) x) pre"
    "matches_id (id' r) d"
  shows "updateUser True r c = (Inr (), c\<lparr>docs := pre @ apply_set (updateFilter r) d # post\<rparr>)"
  using update_first_hit [OF assms(2,3), of "apply_set (updateFilter r)" post] assms(1)
  by (simp add: updateUser_def updateOne_def)

lemma updateUser_miss:
  assumes "list_all (\<lambda>x. \<not> matches_id (id' r) x) (docs c)"
  shows "updateUser True r c =
     (Inr (), c\<lparr>docs := docs c @
        [apply_set (updateFilter r) [(''_id'', BObjectId (next_oid c)), (''id'', BString (id' r))]],
        next_oid := Suc (next_oid c)\<rparr>)"
  using update_first_none [OF assms, of "apply_set (updateFilter r)"]
  by (simp add: updateUser_def updateOne_def)

lemma updateUser_offline: "updateUser False r c = (Inl InternalError, c)"
  by (simp add: updateUser_def updateOne_def)

lemma updateUser_online_ok: "fst (updateUser True r c) = Inr ()"
  by (simp add: updateUser_def updateOne_def split: option.splits)

lemma updateUser_ok_online: "updateUser online r c = (Inr (), c') \<Longrightarrow> online"
  by (cases online) (simp_all add: updateUser_offline)

lemma getUser_offline: "getUser False userId c = Inl InternalError"
  by (simp add: getUser_def findOne_def)

lemma getUser_after_updateUser:
  "getUser True (id' r) (snd (updateUser True r c)) = Inr d' \<Longrightarrow>
     map_of d' ''id'' = Some (BString (id' r)) \<and> map_of d' ''email'' = Some (BString (email r)) \<and>
     map_of d' ''firstname'' = Some (BString (firstname r)) \<and>
     map_of d' ''lastname'' = Some (BString (lastname r))"
  and getUser_after_updateUser_ex: "\<exists>d'. getUser True (id' r) (snd (updateUser True r c)) = Inr d'"
proof -
  let ?p = "matches_id (id' r)"
  let ?f = "apply_set (updateFilter r)"
  have "\<exists>pre z post. docs (snd (updateUser True r c)) = pre @ ?f z # post \<and> list_all (\<lambda>x. \<not> ?p x) pre"
  proof (cases "list_all (\<lambda>x. \<not> ?p x) (docs c)")
    case True
    from updateUser_miss [OF True] True show ?thesis by auto
  next
    case False
    from split_first_match [OF False] obtain pre d post
      where s: "docs c = pre @ d # post" "list_all (\<lambda>x. \<not> ?p x) pre" "?p d" by blast
    from updateUser_hit [OF s] s(2) show ?thesis by auto
  qed
  then obtain pre z post
    where s: "docs (snd (updateUser True r c)) = pre @ ?f z # post" "list_all (\<lambda>x. \<not> ?p x) pre"
    by blast
  have g: "getUser True (id' r) (snd (updateUser True r c)) = Inr (?f z)"
    using find_first_hit [OF s(2) matches_id_updateFilter [of r z], of post] s(1)
    by (simp add: getUser_def findOne_def)
  show "\<exists>d'. getUser True (id' r) (snd (updateUser True r c)) = Inr d'"
    using g by blast
  show "getUser True (id' r) (snd (updateUser True r c)) = Inr d' \<Longrightarrow>
     map_of d' ''id'' = Some (BString (id' r)) \<and> map_of d' ''email'' = Some (BString (email r)) \<and>
     map_of d' ''firstname'' = Some (BString (firstname r)) \<and>
     map_of d' ''lastname'' = Some (BString (lastname r))"
    using g by (auto simp: map_of_updateFilter)
qed

text \<open>Every document of a collection built by \<open>updateUser\<close> calls alone carries the
  \<open>id\<close> of one of the calls.\<close>

lemma updateUser_ids:
  assumes "list_all (\<lambda>d. list_ex (\<lambda>i. matches_id i d) ids) (docs c)"
  shows "list_all (\<lambda>d. list_ex (\<lambda>i. matches_id i d) (id' r # ids)) (docs (snd (updateUser online r c)))"
proof (cases online)
  case False
  with assms show ?thesis
    by (auto simp: updateUser_offline list_all_iff list_ex_iff)
next
  case True
  let ?p = "matches_id (id' r)"
  show ?thesis
  proof (cases "list_all (\<lambda>x. \<not> ?p x) (docs c)")
    case miss: True
    from True updateUser_miss [OF miss] have "docs (snd (updateUser online r c)) = docs c @
        [apply_set (updateFilter r) [(''_id'', BObjectId (next_oid c)), (''id'', BString (id' r))]]"
      by simp
    then show ?thesis
      using assms matches_id_updateFilter [of r]
      by (auto simp: list_all_iff list_ex_iff)
  next
    case False
    from split_first_match [OF False] obtain pre d post
      where s: "docs c = pre @ d # post" "list_all (\<lambda>x. \<not> ?p x) pre" "?p d" by blast
    from True updateUser_hit [OF s]
    have "docs (snd (updateUser online r c)) = pre @ apply_set (updateFilter r) d # post"
      by simp
    then show ?thesis
      using assms s(1) matches_id_updateFilter [of r]
      by (auto simp: list_all_iff list_ex_iff)
  qed
qed

lemma upserts_ids:
  "list_all (\<lambda>d. list_ex (\<lambda>i. matches_id i d) ids) (docs c) \<Longrightarrow>
   list_all (\<lambda>d. list_ex (\<lambda>i. matches_id i d) (rev (map (\<lambda>call. id' (snd call)) calls) @ ids))
     (docs (upserts calls c))"
proof (induction calls arbitrary: c ids)
  case Nil
  then show ?case by simp
next
  case (Cons call calls)
  obtain online r where call: "call = (online, r)" by (cases call)
  from Cons.IH [OF updateUser_ids [OF Cons.prems, of r online]]
  show ?case by (simp add: call)
qed

lemma matches_id_inj: "matches_id i d \<Longrightarrow> matches_id j d \<Longrightarrow> i = j"
  by (simp add: matches_id_def)

lemma getUser_never_upserted:
  assumes "list_all (\<lambda>call. id' (snd call) \<noteq> userId) calls"
  shows "getUser True userId (upserts calls empty_collection) = Inl UserNotFound"
proof -
  have "list_all (\<lambda>d. list_ex (\<lambda>i. matches_id i d) (rev (map (\<lambda>call. id' (snd call)) calls) @ []))
     (docs (upserts calls empty_collection))"
    by (rule upserts_ids) (simp add: empty_collection_def)
  with assms have "list_all (\<lambda>d. \<not> matches_id userId d) (docs (upserts calls empty_collection))"
    by (simp add: list_all_iff list_ex_iff) (metis matches_id_inj)
  then have "find (matches_id userId) (docs (upserts calls empty_collection)) = None"
    by (simp add: find_None_iff list_all_iff)
  then show ?thesis by (simp add: getUser_def findOne_def)
qed

section \<open>Properties of the token codec\<close>

subsection \<open>Splitting\<close>

lemma split_str_no_sep: "sep \<notin> set s \<Longrightarrow> split_str sep s = [s]"
  by (induction s) auto

lemma split_str_first: "sep \<notin> set a \<Longrightarrow> split_str sep (a @ sep # b) = a # split_str sep b"
  by (induction a) auto

lemma split_str_second:
  "sep \<notin> set s \<Longrightarrow> r = [] \<or> hd r = sep \<Longrightarrow> \<exists>rest. split_str sep (s @ r) = s # rest"
proof (cases r)
  case Nil
  assume "sep \<notin> set s"
  then show ?thesis by (simp add: Nil split_str_no_sep)
next
  case (Cons c r')
  assume "sep \<notin> set s" "r = [] \<or> hd r = sep"
  then show ?thesis by (simp add: Cons split_str_first)
qed

text \<open>What \<open>decodeToken\<close> does once the two pieces are known.\<close>

lemma decodeToken_pieces:
  assumes "46 \<notin> set a" "46 \<notin> set s" "r = [] \<or> hd r = 46"
  shows "decodeToken (a @ 46 # s @ r) k =
     (if a = [] \<or> s = [] then Inl (Error ''Invalid token format'')
      else if s \<noteq> createHmac_digest k a then Inl (Error ''Invalid token'')
      else case JSON_parse (utf8_decode (base64_decode a)) of
             None \<Rightarrow> Inl SyntaxError
           | Some payload \<Rightarrow> Inr payload)"
proof -
  from split_str_second [OF assms(2,3)] obtain rest where "split_str 46 (s @ r) = s # rest"
    by blast
  then have "split_str 46 (a @ 46 # s @ r) = a # s # rest"
    using assms(1) by (simp add: split_str_first)
  then show ?thesis by (simp add: decodeToken_def)
qed

lemma decodeToken_no_dot:
  assumes "46 \<notin> set tok"
  shows "decodeToken tok k = Inl (Error ''Invalid token format'')"
  by (simp add: decodeToken_def split_str_no_sep [OF assms])

lemma decodeToken_two_pieces:
  assumes "46 \<notin> set a" "46 \<notin> set s"
  shows "decodeToken (a @ 46 # s) k =
     (if a = [] \<or> s = [] then Inl (Error ''Invalid token format'')
      else if s \<noteq> createHmac_digest k a then Inl (Error ''Invalid token'')
      else case JSON_parse (utf8_decode (base64_decode a)) of
             None \<Rightarrow> Inl SyntaxError
           | Some payload \<Rightarrow> Inr payload)"
  using decodeToken_pieces [OF assms, of "[]" k] by simp

subsection \<open>Base64 text\<close>

lemma unat_of_nat_small: "n < 65536 \<Longrightarrow> unat (of_nat n :: uchar) = n"
  by (simp add: unat_of_nat)

lemma unat_of_nat_byte: "n < 256 \<Longrightarrow> unat (of_nat n :: byte) = n"
  by (simp add: unat_of_nat)

lemma unat_b64_char:
  "unat (b64_char v) =
     (if v < 26 then 65 + v else if v < 52 then 71 + v else if v < 62 then v - 4
      else if v = 62 then 43 else 47)"
  by (simp add: b64_char_def unat_of_nat_small del: of_nat_add of_nat_diff of_nat_numeral)

lemma b64_char_not_dot: "b64_char v \<noteq> 46"
proof
  assume "b64_char v = 46"
  then have "unat (b64_char v) = 46" by simp
  then show False by (simp add: unat_b64_char split: if_splits)
qed

lemma base64_encode_no_dot: "46 \<notin> set (base64_encode bs)"
  by (induction bs rule: base64_encode.induct) (simp_all add: b64_char_not_dot)

lemma base64_encode_empty: "base64_encode bs = [] \<longleftrightarrow> bs = []"
  by (cases bs rule: base64_encode.cases) simp_all

lemma length_base64_encode: "length (base64_encode bs) = 4 * ((length bs + 2) div 3)"
proof (induction bs rule: base64_encode.induct)
  case (1 x y z r)
  have "(length (x # y # z # r) + 2) div 3 = Suc ((length r + 2) div 3)" by simp
  with 1 show ?case by simp
qed simp_all

lemma length_be4: "length (be4 v) = 4"
  by (simp add: be4_def)

lemma length_digest_bytes: "length (digest_bytes s) = 32"
  by (cases s rule: digest_bytes.cases) (simp add: length_be4)

lemma length_sha256: "length (sha256 m) = 32"
  unfolding sha256_def by (rule length_digest_bytes)

lemma length_hmac_sha256: "length (hmac_sha256 key msg) = 32"
  by (simp add: hmac_sha256_def length_sha256)

lemma length_createHmac_digest: "length (createHmac_digest k m) = 44"
  by (simp add: createHmac_digest_def length_base64_encode length_hmac_sha256)

lemma createHmac_digest_no_dot: "46 \<notin> set (createHmac_digest k m)"
  by (simp add: createHmac_digest_def base64_encode_no_dot)

lemma createHmac_digest_not_empty: "createHmac_digest k m \<noteq> []"
  using length_createHmac_digest [of k m] by auto

lemma utf8_encode_empty: "utf8_encode s = [] \<longleftrightarrow> s = []"
  by (cases s) (auto simp: utf8_two_def utf8_three_def utf8_four_def split: list.splits)

lemma JSON_stringify_object_not_empty: "JSON_stringify (JObject ms) \<noteq> []"
  by simp

lemma token_encodeToken:
  "token (encodeToken user data k) =
     encodedPayload_of user data @ 46 # createHmac_digest k (encodedPayload_of user data)"
  by (simp add: encodeToken_def encodedPayload_of_def Let_def)

lemma encodedPayload_no_dot: "46 \<notin> set (encodedPayload_of user data)"
  by (simp add: encodedPayload_of_def base64_encode_no_dot)

lemma encodedPayload_not_empty: "encodedPayload_of user data \<noteq> []"
  by (simp add: encodedPayload_of_def base64_encode_empty utf8_encode_empty)

lemma takeWhile_first_piece: "sep \<notin> set a \<Longrightarrow> takeWhile (\<lambda>c. c \<noteq> sep) (a @ sep # b) = a"
  by (induction a) auto

lemma dropWhile_first_piece: "sep \<notin> set a \<Longrightarrow> dropWhile (\<lambda>c. c \<noteq> sep) (a @ sep # b) = sep # b"
  by (induction a) auto

lemma decodeToken_encodeToken:
  "decodeToken (token (encodeToken user data k)) k' =
     (if createHmac_digest k (encodedPayload_of user data)
           \<noteq> createHmac_digest k' (encodedPayload_of user data)
      then Inl (Error ''Invalid token'')
      else case JSON_parse (utf8_decode (base64_decode (encodedPayload_of user data))) of
             None \<Rightarrow> Inl SyntaxError
           | Some payload \<Rightarrow> Inr payload)"
  unfolding token_encodeToken
  by (simp add: decodeToken_two_pieces encodedPayload_no_dot createHmac_digest_no_dot
      encodedPayload_not_empty createHmac_digest_not_empty)

lemma first_piece_encodeToken:
  "takeWhile (\<lambda>c. c \<noteq> 46) (token (encodeToken user data k)) = encodedPayload_of user data"
  by (simp add: token_encodeToken takeWhile_first_piece encodedPayload_no_dot)

lemma rest_encodeToken:
  "tl (dropWhile (\<lambda>c. c \<noteq> 46) (token (encodeToken user data k)))
     = createHmac_digest k (encodedPayload_of user data)"
  by (simp add: token_encodeToken dropWhile_first_piece encodedPayload_no_dot)

lemma filter_no_sep: "sep \<notin> set s \<Longrightarrow> filter (\<lambda>c. c = sep) s = []"
  by (induction s) auto

lemma pieces_unique:
  assumes "a @ sep # b = a' @ sep # b'" "sep \<notin> set a" "sep \<notin> set a'"
  shows "a = a' \<and> b = b'"
proof -
  have "takeWhile (\<lambda>c. c \<noteq> sep) (a @ sep # b) = takeWhile (\<lambda>c. c \<noteq> sep) (a' @ sep # b')"
    using assms(1) by simp
  then have "a = a'"
    by (simp add: takeWhile_first_piece assms(2,3))
  with assms(1) show ?thesis by simp
qed

text \<open>One character of a signature replaced by another one.\<close>

lemma decodeToken_tampered:
  assumes a: "46 \<notin> set a" "a \<noteq> []"
    and i: "i < length (createHmac_digest k a)" and c: "c \<noteq> createHmac_digest k a ! i"
  shows "decodeToken (a @ 46 # (createHmac_digest k a)[i := c]) k =
     Inl (Error (if i = 0 \<and> c = 46 then ''Invalid token format'' else ''Invalid token''))"
proof (cases "c = 46")
  case True
  let ?s = "createHmac_digest k a"
  have upd: "?s[i := c] = take i ?s @ 46 # drop (Suc i) ?s"
    using i True by (simp add: upd_conv_take_nth_drop)
  have nd: "46 \<notin> set (take i ?s)"
    using createHmac_digest_no_dot [of k a] by (auto dest: in_set_takeD)
  have r: "46 # drop (Suc i) ?s = [] \<or> hd (46 # drop (Suc i) ?s) = 46"
    by simp
  have ne: "take i ?s \<noteq> ?s"
  proof
    assume "take i ?s = ?s"
    then have "length (take i ?s) = length ?s" by simp
    with i show False by simp
  qed
  have e: "take i ?s = [] \<longleftrightarrow> i = 0"
    using i by (cases i) (auto simp: take_eq_Nil)
  show ?thesis
    unfolding upd using decodeToken_pieces [OF a(1) nd r, of k] a(2) ne e True
    by simp
next
  case False
  let ?s = "createHmac_digest k a"
  have nd: "46 \<notin> set (?s[i := c])"
    using createHmac_digest_no_dot [of k a] False set_update_subset_insert [of ?s i c]
    by auto
  have ne: "?s[i := c] \<noteq> ?s"
  proof
    assume "?s[i := c] = ?s"
    then have "?s[i := c] ! i = ?s ! i" by simp
    with i c show False by simp
  qed
  have e: "?s[i := c] \<noteq> []"
    using i by auto
  show ?thesis
    using decodeToken_two_pieces [OF a(1) nd, of k] a(2) ne e False
    by simp
qed

subsection \<open>Base64 round trip\<close>

lemma low_byte_b64_char: "low_byte (b64_char v) = unat (b64_char v)"
  by (simp add: low_byte_def unat_b64_char)

lemma b64_char_not_pad: "low_byte (b64_char v) \<noteq> 61"
  unfolding low_byte_b64_char unat_b64_char by (simp split: if_splits) arith

lemma b64_value_char: "v < 64 \<Longrightarrow> b64_value (b64_char v) = Some v"
  unfolding b64_value_def low_byte_b64_char unat_b64_char by (simp split: if_splits) arith

lemma sextets_char: "v < 64 \<Longrightarrow> sextets (b64_char v # cs) = v # sextets cs"
  by (simp add: b64_char_not_pad b64_value_char)

lemma unat_byte_less: "unat (x :: byte) < 256"
  using unsigned_less [of x, where ?'a = nat] by simp

lemma of_nat_unat_byte: "(of_nat (unat (w :: byte)) :: byte) = w"
  by simp

lemma of_nat_unat_uchar: "(of_nat (unat (w :: uchar)) :: uchar) = w"
  by simp

lemma base64_decode_encode: "base64_decode (base64_encode bs) = bs"
proof -
  have "unsextets (sextets (base64_encode bs)) = bs"
  proof (induction bs rule: base64_encode.induct)
    case (1 x y z r)
    have x: "unat x < 256" and y: "unat y < 256" and z: "unat z < 256"
      by (rule unat_byte_less)+
    have v: "unat x div 4 < 64" "unat x mod 4 * 16 + unat y div 16 < 64"
      "unat y mod 16 * 4 + unat z div 64 < 64" "unat z mod 64 < 64"
      using x y z by auto
    have a: "unat x div 4 * 4 + (unat x mod 4 * 16 + unat y div 16) div 16 = unat x"
      using y by simp
    have b: "(unat x mod 4 * 16 + unat y div 16) mod 16 * 16
        + (unat y mod 16 * 4 + unat z div 64) div 4 = unat y"
      using y z by simp
    have c: "(unat y mod 16 * 4 + unat z div 64) mod 4 * 64 + unat z mod 64 = unat z"
      using z by simp
    show ?case
      by (simp only: base64_encode.simps sextets_char v unsextets.simps a b c of_nat_unat_byte "1.IH")
  next
    case (2 x y)
    have x: "unat x < 256" and y: "unat y < 256"
      by (rule unat_byte_less)+
    have v: "unat x div 4 < 64" "unat x mod 4 * 16 + unat y div 16 < 64" "unat y mod 16 * 4 < 64"
      using x y by auto
    have a: "unat x div 4 * 4 + (unat x mod 4 * 16 + unat y div 16) div 16 = unat x"
      using y by simp
    have b: "(unat x mod 4 * 16 + unat y div 16) mod 16 * 16 + (unat y mod 16 * 4) div 4 = unat y"
      using y by simp
    have e: "sextets [61] = []"
      by (simp add: low_byte_def)
    show ?case
      by (simp only: base64_encode.simps sextets_char v e unsextets.simps a b of_nat_unat_byte)
  next
    case (3 x)
    have x: "unat x < 256"
      by (rule unat_byte_less)
    have v: "unat x div 4 < 64" "unat x mod 4 * 16 < 64"
      using x by auto
    have a: "unat x div 4 * 4 + (unat x mod 4 * 16) div 16 = unat x"
      by simp
    have e: "sextets [61, 61] = []"
      by (simp add: low_byte_def)
    show ?case
      by (simp only: base64_encode.simps sextets_char v e unsextets.simps a of_nat_unat_byte)
  next
    case 4
    show ?case by simp
  qed
  then show ?thesis by (simp add: base64_decode_def)
qed

subsection \<open>UTF-8 round trip\<close>

lemma split3: "(n::nat) = 4096 * (n div 4096) + 64 * (n div 64 mod 64) + n mod 64"
proof -
  define q where "q = n div 64"
  define r where "r = n mod 64"
  define a where "a = q div 64"
  define b where "b = q mod 64"
  have 1: "n = 64 * q + r" unfolding q_def r_def by simp
  have 2: "q = 64 * a + b" unfolding a_def b_def by simp
  have 3: "a = n div 4096" unfolding a_def q_def by (simp add: div_mult2_eq [symmetric])
  from 1 2 have "n = 4096 * a + 64 * b + r" by simp
  then show ?thesis unfolding 3 b_def q_def r_def .
qed

lemma split4: "(n::nat) = 262144 * (n div 262144) + 4096 * (n div 4096 mod 64) + 64 * (n div 64 mod 64) + n mod 64"
proof -
  define p where "p = n div 4096"
  define a where "a = p div 64"
  define b where "b = p mod 64"
  define c where "c = n div 64 mod 64"
  define r where "r = n mod 64"
  have 1: "n = 4096 * p + 64 * c + r" unfolding p_def c_def r_def by (rule split3)
  have 2: "p = 64 * a + b" unfolding a_def b_def by simp
  have 3: "a = n div 262144" unfolding a_def p_def by (simp add: div_mult2_eq [symmetric])
  from 1 2 have "n = 262144 * a + 4096 * b + 64 * c + r" by simp
  then show ?thesis unfolding 3 b_def p_def c_def r_def .
qed

lemma split2: "(n::nat) = 64 * (n div 64) + n mod 64"
  by simp

lemma mod64: "(n::nat) mod 64 < 64" "n div 64 mod 64 < 64" "n div 4096 mod 64 < 64"
  by simp_all

lemma two_range: 
  assumes "128 \<le> (n::nat)" "n < 2048" shows "2 \<le> n div 64" "n div 64 \<le> 31"
  using assms split2 [of n] mod64(1) [of n] by linarith+

lemma three_range:
  assumes "2048 \<le> (n::nat)" "n < 65536"
  shows "n div 4096 \<le> 15" "n div 4096 = 0 \<Longrightarrow> 32 \<le> n div 64 mod 64"
    "n div 4096 = 13 \<Longrightarrow> n < 55296 \<Longrightarrow> n div 64 mod 64 \<le> 31"
  using assms split3 [of n] mod64(1,2) [of n] by linarith+

lemma four_range:
  assumes "65536 \<le> (n::nat)" "n < 1114112"
  shows "n div 262144 \<le> 4" "n div 262144 = 0 \<Longrightarrow> 16 \<le> n div 4096 mod 64"
    "n div 262144 = 4 \<Longrightarrow> n div 4096 mod 64 \<le> 15"
  using assms split4 [of n] mod64 [of n] by linarith+

lemma pair_split: "(m::nat) = 1024 * (m div 1024) + m mod 1024"
  by simp

lemma unat_uchar_less: "unat (c :: uchar) < 65536"
  using unsigned_less [of c, where ?'a = nat] by simp

lemma utf8_decode_one:
  assumes "unat c < 128"
  shows "utf8_decode (of_nat (unat c) # bs) = c # utf8_decode bs"
proof -
  define b :: byte where "b = of_nat (unat c)"
  have b: "unat b = unat c"
    unfolding b_def by (rule unat_of_nat_byte) (use assms in linarith)
  have "utf8_decode (b # bs) = c # utf8_decode bs"
    using assms by (simp add: b of_nat_unat_uchar)
  then show ?thesis by (simp only: b_def)
qed

lemma utf8_decode_two:
  assumes "128 \<le> unat c" "unat c < 2048"
  shows "utf8_decode (utf8_two (unat c) @ bs) = c # utf8_decode bs"
proof -
  define n where "n = unat c"
  define b0 :: byte where "b0 = of_nat (192 + n div 64)"
  define b1 :: byte where "b1 = of_nat (128 + n mod 64)"
  have n: "128 \<le> n" "n < 2048"
    using assms by (simp_all add: n_def)
  note q = two_range [OF n]
  have b0: "unat b0 = 192 + n div 64"
    unfolding b0_def by (rule unat_of_nat_byte) (use q in linarith)
  have b1: "unat b1 = 128 + n mod 64"
    unfolding b1_def by (rule unat_of_nat_byte) (use mod64(1) [of n] in linarith)
  have r0: "\<not> unat b0 < 128" "between 194 223 b0"
    unfolding b0 between_def using q by linarith+
  have r1: "between 128 191 b1"
    unfolding b1 between_def using mod64(1) [of n] by linarith
  have "cp2 b0 b1 = n"
    unfolding cp2_def b0 b1 using split2 [of n] by simp
  then have "(of_nat (cp2 b0 b1) :: uchar) = c"
    by (simp add: n_def)
  then have "utf8_decode (b0 # b1 # bs) = c # utf8_decode bs"
    using r0 r1 by simp
  then show ?thesis
    by (simp only: utf8_two_def b0_def b1_def n_def append_Cons append_Nil)
qed

lemma utf8_decode_three:
  assumes "2048 \<le> unat c" "\<not> is_high c" "\<not> is_low c"
  shows "utf8_decode (utf8_three (unat c) @ bs) = c # utf8_decode bs"
proof -
  define n where "n = unat c"
  define b0 :: byte where "b0 = of_nat (224 + n div 4096)"
  define b1 :: byte where "b1 = of_nat (128 + n div 64 mod 64)"
  define b2 :: byte where "b2 = of_nat (128 + n mod 64)"
  have n: "2048 \<le> n" "n < 65536"
    using assms unat_uchar_less [of c] by (simp_all add: n_def)
  have ns: "n < 55296 \<or> 57343 < n"
    using assms(2,3) unfolding is_high_def is_low_def n_def by linarith
  note q = three_range [OF n]
  have b0: "unat b0 = 224 + n div 4096"
    unfolding b0_def by (rule unat_of_nat_byte) (use q(1) in linarith)
  have b1: "unat b1 = 128 + n div 64 mod 64"
    unfolding b1_def by (rule unat_of_nat_byte) (use mod64(2) [of n] in linarith)
  have b2: "unat b2 = 128 + n mod 64"
    unfolding b2_def by (rule unat_of_nat_byte) (use mod64(1) [of n] in linarith)
  have r0: "\<not> unat b0 < 128" "\<not> between 194 223 b0" "between 224 239 b0"
    unfolding b0 between_def using q(1) by linarith+
  have lo: "lower2 b0 \<le> unat b1"
  proof (cases "n div 4096 = 0")
    case True
    with q(2) show ?thesis by (simp add: lower2_def b0 b1)
  next
    case False
    with q(1) show ?thesis by (simp add: lower2_def b0 b1)
  qed
  have hi: "unat b1 \<le> upper2 b0"
  proof (cases "n div 4096 = 13")
    case True
    have "n < 57344"
      using True split3 [of n] mod64(1,2) [of n] by linarith
    with ns have "n < 55296" by linarith
    with True q(3) show ?thesis by (simp add: upper2_def b0 b1)
  next
    case False
    with q(1) show ?thesis
      using mod64(2) [of n] by (simp add: upper2_def b0 b1)
  qed
  have r1: "between (lower2 b0) (upper2 b0) b1"
    using lo hi by (simp add: between_def)
  have r2: "between 128 191 b2"
    unfolding b2 between_def using mod64(1) [of n] by linarith
  have "cp3 b0 b1 b2 = n"
    unfolding cp3_def b0 b1 b2 using split3 [of n] by simp
  then have "(of_nat (cp3 b0 b1 b2) :: uchar) = c"
    by (simp add: n_def)
  then have "utf8_decode (b0 # b1 # b2 # bs) = c # utf8_decode bs"
    using r0 r1 r2 by simp
  then show ?thesis
    by (simp only: utf8_three_def b0_def b1_def b2_def n_def append_Cons append_Nil)
qed

lemma utf8_decode_four:
  assumes "is_high c" "is_low d"
  shows "utf8_decode (utf8_four (code_point c d) @ bs) = c # d # utf8_decode bs"
proof -
  define h where "h = unat c - 55296"
  define l where "l = unat d - 56320"
  define n where "n = code_point c d"
  define b0 :: byte where "b0 = of_nat (240 + n div 262144)"
  define b1 :: byte where "b1 = of_nat (128 + n div 4096 mod 64)"
  define b2 :: byte where "b2 = of_nat (128 + n div 64 mod 64)"
  define b3 :: byte where "b3 = of_nat (128 + n mod 64)"
  have h: "unat c = 55296 + h" "h < 1024"
    using assms(1) unfolding is_high_def h_def by linarith+
  have l: "unat d = 56320 + l" "l < 1024"
    using assms(2) unfolding is_low_def l_def by linarith+
  have m: "n - 65536 = h * 1024 + l"
    unfolding n_def code_point_def h_def l_def by simp
  have n: "65536 \<le> n" "n < 1114112"
    using h(2) l(2) unfolding n_def code_point_def h_def [symmetric] l_def [symmetric]
    by linarith+
  note q = four_range [OF n]
  have b0: "unat b0 = 240 + n div 262144"
    unfolding b0_def by (rule unat_of_nat_byte) (use q(1) in linarith)
  have b1: "unat b1 = 128 + n div 4096 mod 64"
    unfolding b1_def by (rule unat_of_nat_byte) (use mod64(3) [of n] in linarith)
  have b2: "unat b2 = 128 + n div 64 mod 64"
    unfolding b2_def by (rule unat_of_nat_byte) (use mod64(2) [of n] in linarith)
  have b3: "unat b3 = 128 + n mod 64"
    unfolding b3_def by (rule unat_of_nat_byte) (use mod64(1) [of n] in linarith)
  have r0: "\<not> unat b0 < 128" "\<not> between 194 223 b0" "\<not> between 224 239 b0"
    "between 240 244 b0"
    unfolding b0 between_def using q(1) by linarith+
  have lo: "lower2 b0 \<le> unat b1"
  proof (cases "n div 262144 = 0")
    case True
    with q(2) show ?thesis by (simp add: lower2_def b0 b1)
  next
    case False
    then show ?thesis by (simp add: lower2_def b0 b1)
  qed
  have hi: "unat b1 \<le> upper2 b0"
  proof (cases "n div 262144 = 4")
    case True
    with q(3) show ?thesis by (simp add: upper2_def b0 b1)
  next
    case False
    then show ?thesis
      using mod64(3) [of n] by (simp add: upper2_def b0 b1)
  qed
  have r1: "between (lower2 b0) (upper2 b0) b1"
    using lo hi by (simp add: between_def)
  have r2: "between 128 191 b2"
    unfolding b2 between_def using mod64(2) [of n] by linarith
  have r3: "between 128 191 b3"
    unfolding b3 between_def using mod64(1) [of n] by linarith
  have cp: "cp4 b0 b1 b2 b3 = n"
    unfolding cp4_def b0 b1 b2 b3 using split4 [of n] by simp
  have "(n - 65536) div 1024 = h" "(n - 65536) mod 1024 = l"
    unfolding m using l(2) by simp_all
  then have "utf16_pair n = [of_nat (unat c), of_nat (unat d)]"
    unfolding utf16_pair_def h(1) l(1) by simp
  then have "utf16_pair (cp4 b0 b1 b2 b3) = [c, d]"
    unfolding cp by (simp only: of_nat_unat_uchar)
  then have "utf8_decode (b0 # b1 # b2 # b3 # bs) = c # d # utf8_decode bs"
    using r0 r1 r2 r3 by simp
  then show ?thesis
    by (simp only: utf8_four_def b0_def b1_def b2_def b3_def n_def append_Cons append_Nil)
qed

lemma utf8_decode_encode: "well_formed s \<Longrightarrow> utf8_decode (utf8_encode s) = s"
proof (induction s rule: well_formed.induct)
  case 1
  show ?case by simp
next
  case (2 c cs)
  show ?case
  proof (cases "is_high c")
    case True
    with "2.prems" obtain d ds where cs: "cs = d # ds" and d: "is_low d" and w: "well_formed ds"
      by (cases cs) auto
    have big: "\<not> unat c < 128" "\<not> unat c < 2048"
      using True unfolding is_high_def by linarith+
    have "utf8_encode (c # cs) = utf8_four (code_point c d) @ utf8_encode ds"
      using True d big by (simp add: cs)
    then show ?thesis
      using "2.IH"(1) [OF True cs w] by (simp only: utf8_decode_four [OF True d] cs)
  next
    case False
    with "2.prems" have low: "\<not> is_low c" and w: "well_formed cs"
      by simp_all
    note ih = "2.IH"(2) [OF False w]
    consider "unat c < 128" | "128 \<le> unat c" "unat c < 2048" | "2048 \<le> unat c"
      by linarith
    then show ?thesis
    proof cases
      case 1
      then have "utf8_encode (c # cs) = of_nat (unat c) # utf8_encode cs"
        by (simp del: of_nat_unat)
      then show ?thesis
        by (simp only: utf8_decode_one [OF 1] ih)
    next
      case 2
      then have "utf8_encode (c # cs) = utf8_two (unat c) @ utf8_encode cs"
        by simp
      then show ?thesis
        by (simp only: utf8_decode_two [OF 2] ih)
    next
      case 3
      then have "utf8_encode (c # cs) = utf8_three (unat c) @ utf8_encode cs"
        using False low by simp
      then show ?thesis
        by (simp only: utf8_decode_three [OF 3 False low] ih)
    qed
  qed
qed

subsection \<open>Quoted strings\<close>

lemma split_hex: "(n::nat) = 4096 * (n div 4096) + 256 * (n div 256 mod 16) + 16 * (n div 16 mod 16) + n mod 16"
proof -
  define p where "p = n div 16"
  define q where "q = p div 16"
  have 1: "n = 16 * p + n mod 16" unfolding p_def by simp
  have 2: "p = 16 * q + p mod 16" unfolding q_def by simp
  have 3: "q = 16 * (q div 16) + q mod 16" by simp
  have 4: "q = n div 256" unfolding q_def p_def by (simp add: div_mult2_eq [symmetric])
  have 5: "q div 16 = n div 4096" unfolding q_def p_def by (simp add: div_mult2_eq [symmetric])
  from 1 2 3 have "n = 4096 * (q div 16) + 256 * (q mod 16) + 16 * (p mod 16) + n mod 16"
    by linarith
  then show ?thesis unfolding 5 unfolding 4 p_def .
qed

lemma unat_hex_digit: "v < 16 \<Longrightarrow> unat (hex_digit v) = (if v < 10 then 48 + v else 87 + v)"
  by (simp add: hex_digit_def unat_of_nat_small del: of_nat_add of_nat_numeral)

lemma hex_value_digit: "v < 16 \<Longrightarrow> hex_value (hex_digit v) = Some v"
  by (simp add: hex_value_def unat_hex_digit)

lemma hex4_digits:
  "hex4 (hex_digit (unat c div 4096)) (hex_digit (unat c div 256 mod 16))
     (hex_digit (unat c div 16 mod 16)) (hex_digit (unat c mod 16)) = Some c"
proof -
  have "unat c div 4096 < 16"
    using unat_uchar_less [of c] by simp
  then have "hex4 (hex_digit (unat c div 4096)) (hex_digit (unat c div 256 mod 16))
     (hex_digit (unat c div 16 mod 16)) (hex_digit (unat c mod 16))
     = Some (of_nat (((unat c div 4096 * 16 + unat c div 256 mod 16) * 16 + unat c div 16 mod 16) * 16
         + unat c mod 16))"
    by (simp add: hex4_def hex_value_digit del: of_nat_add of_nat_mult of_nat_numeral)
  moreover have "((unat c div 4096 * 16 + unat c div 256 mod 16) * 16 + unat c div 16 mod 16) * 16
         + unat c mod 16 = unat c"
    using split_hex [of "unat c"] by simp
  ultimately show ?thesis
    by (simp only: of_nat_unat_uchar)
qed

lemma lex_string_unicode_escape:
  "lex_string (unicode_escape c @ rest) = prepend c (lex_string rest)"
  by (simp add: unicode_escape_def hex4_digits)

lemma lex_string_plain:
  "c \<noteq> 34 \<Longrightarrow> c \<noteq> 92 \<Longrightarrow> \<not> unat c < 32 \<Longrightarrow> lex_string (c # rest) = prepend c (lex_string rest)"
  by simp

lemma surrogate_plain:
  assumes "is_high c \<or> is_low c"
  shows "c \<noteq> 8" "c \<noteq> 9" "c \<noteq> 10" "c \<noteq> 12" "c \<noteq> 13" "c \<noteq> 34" "c \<noteq> 92" "\<not> unat c < 32"
  using assms by (auto simp: is_high_def is_low_def)

lemma lex_string_quote_chars: "lex_string (quote_chars s @ 34 # r) = Some (s, r)"
proof (induction s rule: length_induct)
  case (1 s)
  show ?case
  proof (cases s)
    case Nil
    then show ?thesis by simp
  next
    case (Cons c cs)
    have ih: "lex_string (quote_chars cs @ 34 # r) = Some (cs, r)"
      using "1.IH" Cons by simp
    consider (two) "c = 8 \<or> c = 9 \<or> c = 10 \<or> c = 12 \<or> c = 13 \<or> c = 34 \<or> c = 92"
      | (ctl) "c \<noteq> 8" "c \<noteq> 9" "c \<noteq> 10" "c \<noteq> 12" "c \<noteq> 13" "c \<noteq> 34" "c \<noteq> 92" "unat c < 32"
      | (high) "is_high c"
      | (low) "\<not> is_high c" "is_low c"
      | (plain) "c \<noteq> 8" "c \<noteq> 9" "c \<noteq> 10" "c \<noteq> 12" "c \<noteq> 13" "c \<noteq> 34" "c \<noteq> 92"
          "\<not> unat c < 32" "\<not> is_high c" "\<not> is_low c"
      by blast
    then show ?thesis
    proof cases
      case two
      then show ?thesis
        unfolding Cons using ih by (elim disjE) simp_all
    next
      case ctl
      then have "quote_chars (c # cs) = unicode_escape c @ quote_chars cs"
        by simp
      then show ?thesis
        unfolding Cons by (simp only: append_assoc lex_string_unicode_escape ih prepend.simps)
    next
      case high
      note p = surrogate_plain [OF disjI1 [OF high]]
      show ?thesis
      proof (cases cs)
        case Nil
        have "quote_chars (c # cs) = unicode_escape c @ quote_chars cs"
          using p high by (simp add: Nil)
        then show ?thesis
          unfolding Cons by (simp only: append_assoc lex_string_unicode_escape ih prepend.simps)
      next
        case (Cons d ds)
        show ?thesis
        proof (cases "is_low d")
          case True
          note pd = surrogate_plain [OF disjI2 [OF True]]
          have ihd: "lex_string (quote_chars ds @ 34 # r) = Some (ds, r)"
            using "1.IH" \<open>s = c # cs\<close> Cons by simp
          have "quote_chars (c # cs) = c # d # quote_chars ds"
            using p high True by (simp add: Cons)
          then show ?thesis
            unfolding \<open>s = c # cs\<close> Cons
            by (simp only: append_Cons lex_string_plain [OF p(6,7,8)] lex_string_plain [OF pd(6,7,8)]
                ihd prepend.simps)
        next
          case False
          have "quote_chars (c # cs) = unicode_escape c @ quote_chars cs"
            using p high False by (simp add: Cons)
          then show ?thesis
            unfolding \<open>s = c # cs\<close>
            by (simp only: append_assoc lex_string_unicode_escape ih prepend.simps)
        qed
      qed
    next
      case low
      note p = surrogate_plain [OF disjI2 [OF low(2)]]
      have "quote_chars (c # cs) = unicode_escape c @ quote_chars cs"
        using p low by simp
      then show ?thesis
        unfolding Cons by (simp only: append_assoc lex_string_unicode_escape ih prepend.simps)
    next
      case plain
      then have "quote_chars (c # cs) = c # quote_chars cs"
        by simp
      then show ?thesis
        unfolding Cons
        by (simp only: append_Cons lex_string_plain [OF plain(6,7,8)] ih prepend.simps)
    qed
  qed
qed

subsection \<open>Number literals\<close>

lemma takeWhile_append_end:
  "dropWhile P s \<noteq> [] \<or> r = [] \<or> \<not> P (hd r) \<Longrightarrow>
     takeWhile P (s @ r) = takeWhile P s \<and> dropWhile P (s @ r) = dropWhile P s @ r"
proof (induction s)
  case Nil
  then show ?case by (cases r) auto
next
  case (Cons a s)
  then show ?case by (cases "P a") auto
qed

lemma number_end_digit: "number_end r \<Longrightarrow> r = [] \<or> \<not> is_digit (hd r)"
  by (cases r) (auto simp: number_end_def)

lemma lex_digits_append:
  assumes "lex_digits s = Some (t, s')" "s' = [] \<longrightarrow> number_end r"
  shows "lex_digits (s @ r) = Some (t, s' @ r)"
proof -
  from assms(1) have t: "t = takeWhile is_digit s" "s' = dropWhile is_digit s" "t \<noteq> []"
    by (auto simp: lex_digits_def split: if_splits)
  have "dropWhile is_digit s \<noteq> [] \<or> r = [] \<or> \<not> is_digit (hd r)"
    using assms(2) t(2) number_end_digit [of r] by blast
  from takeWhile_append_end [OF this] t show ?thesis
    by (simp add: lex_digits_def)
qed

lemma lex_int_append:
  assumes "lex_int s = Some (p, s')" "s' = [] \<longrightarrow> number_end r"
  shows "lex_int (s @ r) = Some (p, s' @ r)"
proof (cases s)
  case Nil
  with assms(1) show ?thesis by (simp add: lex_int_def)
next
  case (Cons c cs)
  show ?thesis
  proof (cases "c = 48")
    case True
    with assms(1) Cons show ?thesis by (auto simp: lex_int_def)
  next
    case False
    with assms(1) Cons have "lex_digits s = Some (p, s')"
      by (simp add: lex_int_def)
    from lex_digits_append [OF this assms(2)] False Cons show ?thesis
      by (simp add: lex_int_def)
  qed
qed

lemma lex_frac_append:
  assumes "lex_frac s = Some (p, s')" "s' = [] \<longrightarrow> number_end r"
  shows "lex_frac (s @ r) = Some (p, s' @ r)"
proof (cases s)
  case Nil
  with assms show ?thesis
    by (cases r) (auto simp: lex_frac_def number_end_def)
next
  case (Cons c cs)
  show ?thesis
  proof (cases "c = 46")
    case False
    with assms(1) Cons show ?thesis by (auto simp: lex_frac_def)
  next
    case True
    with assms(1) Cons obtain ds where d: "lex_digits cs = Some (ds, s')" and p: "p = c # ds"
      by (auto simp: lex_frac_def)
    from lex_digits_append [OF d assms(2)] True Cons p show ?thesis
      by (simp add: lex_frac_def)
  qed
qed

lemma lex_exp_append:
  assumes "lex_exp s = Some (p, s')" "s' = [] \<longrightarrow> number_end r"
  shows "lex_exp (s @ r) = Some (p, s' @ r)"
proof (cases s)
  case Nil
  with assms show ?thesis
    by (cases r) (auto simp: lex_exp_def number_end_def)
next
  case (Cons c cs)
  show ?thesis
  proof (cases "c = 101 \<or> c = 69")
    case False
    with assms(1) Cons show ?thesis by (auto simp: lex_exp_def)
  next
    case True
    with assms(1) Cons obtain g ds where cs: "cs = g # ds"
      by (cases cs) (auto simp: lex_exp_def)
    show ?thesis
    proof (cases "g = 43 \<or> g = 45")
      case sign: True
      with assms(1) Cons cs True obtain t where d: "lex_digits ds = Some (t, s')"
        and p: "p = c # g # t"
        by (auto simp: lex_exp_def)
      from lex_digits_append [OF d assms(2)] True sign Cons cs p show ?thesis
        by (simp add: lex_exp_def)
    next
      case nosign: False
      with assms(1) Cons cs True obtain t where d: "lex_digits cs = Some (t, s')"
        and p: "p = c # t"
        by (auto simp: lex_exp_def)
      from lex_digits_append [OF d assms(2)] True nosign Cons cs p show ?thesis
        by (simp add: lex_exp_def)
    qed
  qed
qed

lemma lex_digits_suffix: "lex_digits s = Some (t, s') \<Longrightarrow> s = [] \<longrightarrow> s' = []"
  by (auto simp: lex_digits_def)

lemma lex_frac_Nil: "lex_frac [] = Some (p, s') \<Longrightarrow> s' = []"
  by (simp add: lex_frac_def)

lemma lex_exp_Nil: "lex_exp [] = Some (p, s') \<Longrightarrow> s' = []"
  by (simp add: lex_exp_def)

lemma lex_number_append:
  assumes "lex_number t = Some (t, [])" "number_end r"
  shows "lex_number (t @ r) = Some (t, r)"
proof -
  obtain sg s1 where sg: "lex_sign t = (sg, s1)" by (cases "lex_sign t")
  from assms(1) sg obtain ip s2 where ip: "lex_int s1 = Some (ip, s2)"
    by (auto simp: lex_number_def split: option.splits)
  from assms(1) sg ip obtain fp s3 where fp: "lex_frac s2 = Some (fp, s3)"
    by (auto simp: lex_number_def split: option.splits)
  from assms(1) sg ip fp obtain ep where ep: "lex_exp s3 = Some (ep, [])"
    and t: "t = sg @ ip @ fp @ ep"
    by (auto simp: lex_number_def split: option.splits)
  have s1: "s1 \<noteq> []"
    using ip by (auto simp: lex_int_def)
  have e3: "s3 = [] \<longrightarrow> number_end r" using assms(2) by simp
  have e2: "s2 = [] \<longrightarrow> number_end r" using assms(2) by simp
  have sg': "lex_sign (t @ r) = (sg, s1 @ r)"
    using sg s1 by (cases t) (auto simp: lex_sign_def split: if_splits)
  have "lex_exp (s3 @ r) = Some (ep, [] @ r)"
    by (rule lex_exp_append [OF ep]) (simp add: assms(2))
  with sg' lex_int_append [OF ip e2] lex_frac_append [OF fp e3] t show ?thesis
    by (simp add: lex_number_def)
qed

lemma lex_number_first:
  assumes "lex_number t = Some (t', r)"
  shows "\<exists>c cs. t = c # cs \<and> (c = 45 \<or> is_digit c)"
proof -
  obtain sg s1 where sg: "lex_sign t = (sg, s1)" by (cases "lex_sign t")
  from assms sg obtain ip s2 where ip: "lex_int s1 = Some (ip, s2)"
    by (auto simp: lex_number_def split: option.splits)
  then obtain c cs where s1: "s1 = c # cs" and c: "is_digit c"
    by (cases s1) (auto simp: lex_int_def lex_digits_def is_digit_def split: if_splits)
  from sg s1 c show ?thesis
    by (cases t) (auto simp: lex_sign_def split: if_splits)
qed

lemma is_digit_not_special:
  assumes "c = 45 \<or> is_digit c"
  shows "\<not> is_ws c" "c \<noteq> 123" "c \<noteq> 125" "c \<noteq> 91" "c \<noteq> 93" "c \<noteq> 58" "c \<noteq> 44" "c \<noteq> 34"
  using assms by (auto simp: is_digit_def is_ws_def)

lemma tokenize_number:
  assumes "lex_number t = Some (t, [])" "number_end r"
  shows "tokenize (t @ r) = cons_token (TNumber t) (tokenize r)"
proof -
  from lex_number_first [OF assms(1)] obtain c cs where t: "t = c # cs" and c: "c = 45 \<or> is_digit c"
    by blast
  note n = is_digit_not_special [OF c]
  have "lex_number (c # cs @ r) = Some (t, r)"
    using lex_number_append [OF assms] by (simp add: t)
  then show ?thesis
    unfolding t using n c by simp
qed

subsection \<open>The grammar reads what \<open>JSON_stringify\<close> prints\<close>

lemma step_value_pos: "value_pos st \<Longrightarrow> t \<noteq> TRBracket \<Longrightarrow> step st t = start_value t st"
  by (cases st rule: value_pos.cases) simp_all

lemma run_scalar:
  assumes "value_pos st" "t \<noteq> TRBracket" "start_value t st = push_value v st"
  shows "run (Run st) (t # ts) = Option.bind (push_value v st) (\<lambda>s. run s ts)"
  using step_value_pos [OF assms(1,2)] assms(3)
  by (cases "push_value v st") simp_all

lemma run_lexemes:
  "value_pos st \<Longrightarrow>
     run (Run st) (lexemes v @ ts) = Option.bind (push_value v st) (\<lambda>s. run s ts)"
  and run_lexemes_elements:
  "vs \<noteq> [] \<Longrightarrow>
     run (Run (ArrStart # st)) (lexemes_elements vs @ ts) = run (Run (ArrAfter (rev vs) # st)) ts \<and>
     run (Run (ArrNext acc # st)) (lexemes_elements vs @ ts)
       = run (Run (ArrAfter (rev vs @ acc) # st)) ts"
  and run_lexemes_members:
  "ms \<noteq> [] \<Longrightarrow>
     run (Run (ObjStart # st)) (lexemes_members ms @ ts) = run (Run (ObjAfter (rev ms) # st)) ts \<and>
     run (Run (ObjKey macc # st)) (lexemes_members ms @ ts)
       = run (Run (ObjAfter (rev ms @ macc) # st)) ts"
proof (induction v and vs and ms arbitrary: st ts and st ts acc and st ts macc
    rule: lexemes_lexemes_elements_lexemes_members.induct)
  case 1
  then show ?case by (simp add: run_scalar del: run.simps)
next
  case (2 b)
  then show ?case by (cases b) (simp_all add: run_scalar del: run.simps)
next
  case (3 t)
  then show ?case by (simp add: run_scalar del: run.simps)
next
  case (4 s)
  then show ?case by (simp add: run_scalar del: run.simps)
next
  case (5 vs)
  show ?case
  proof (cases "vs = []")
    case True
    with "5.prems" show ?thesis
      by (cases "push_value (JArray []) st") (simp_all add: step_value_pos)
  next
    case False
    from "5.IH" [OF False, of st "TRBracket # ts" "[]"]
    have "run (Run (ArrStart # st)) (lexemes_elements vs @ TRBracket # ts)
        = run (Run (ArrAfter (rev vs) # st)) (TRBracket # ts)"
      by simp
    with "5.prems" show ?thesis
      by (cases "push_value (JArray vs) st") (simp_all add: step_value_pos)
  qed
next
  case (6 ms)
  show ?case
  proof (cases "ms = []")
    case True
    with "6.prems" show ?thesis
      by (cases "push_value (JObject []) st") (simp_all add: step_value_pos)
  next
    case False
    from "6.IH" [OF False, of st "TRBrace # ts" "[]"]
    have "run (Run (ObjStart # st)) (lexemes_members ms @ TRBrace # ts)
        = run (Run (ObjAfter (rev ms) # st)) (TRBrace # ts)"
      by simp
    with "6.prems" show ?thesis
      by (cases "push_value (JObject ms) st") (simp_all add: step_value_pos)
  qed
next
  case 7
  then show ?case by simp
next
  case (8 v)
  have a: "value_pos (ArrStart # st)" "value_pos (ArrNext acc # st)"
    by simp_all
  show ?case
    using "8.IH" [OF a(1), of ts] "8.IH" [OF a(2), of ts] by simp
next
  case (9 v w vs)
  have a: "value_pos (ArrStart # st)" "value_pos (ArrNext acc # st)"
    by simp_all
  have n: "w # vs \<noteq> []" by simp
  note rest = "9.IH"(2) [OF n]
  show ?case
    using "9.IH"(1) [OF a(1), of "TComma # lexemes_elements (w # vs) @ ts"]
      "9.IH"(1) [OF a(2), of "TComma # lexemes_elements (w # vs) @ ts"]
      rest [of st ts "[v]"] rest [of st ts "v # acc"]
    by simp
next
  case 10
  then show ?case by simp
next
  case (11 k v)
  have a: "value_pos (ObjValue [] k # st)" "value_pos (ObjValue macc k # st)"
    by simp_all
  show ?case
    using "11.IH" [OF a(1), of ts] "11.IH" [OF a(2), of ts] by simp
next
  case (12 k v m ms)
  have a: "value_pos (ObjValue [] k # st)" "value_pos (ObjValue macc k # st)"
    by simp_all
  have n: "m # ms \<noteq> []" by simp
  note rest = "12.IH"(2) [OF n]
  show ?case
    using "12.IH"(1) [OF a(1), of "TComma # lexemes_members (m # ms) @ ts"]
      "12.IH"(1) [OF a(2), of "TComma # lexemes_members (m # ms) @ ts"]
      rest [of st ts "[(k, v)]"] rest [of st ts "(k, v) # macc"]
    by simp
qed

lemma parse_tokens_lexemes: "parse_tokens (lexemes v) = Some v"
  using run_lexemes [of "[]" v "[]"] by (simp add: parse_tokens_def)

subsection \<open>Evaluating HMAC-SHA256\<close>

lemma schedule_numeral:
  "schedule (numeral k) ws = hd ws # schedule (pred_numeral k) (tl ws @ [next_w ws])"
  by (simp add: numeral_eq_Suc)

lemma replicate_num: "replicate (numeral k) x = x # replicate (pred_numeral k) x"
  by (simp add: numeral_eq_Suc)

lemmas sha_eval = compress_def H256_def K256_def schedule_numeral next_w_def add32_def
  ssig0_def ssig1_def bsig0_def bsig1_def Ch_def Maj_def rotr_def T1_def T2_def shift_in_def

lemma pad_len:
  "length m = n \<Longrightarrow> pad m = m @ 128 # replicate ((119 - n mod 64) mod 64) 0 @ be8 (8 * n)"
  by (simp add: pad_def)

lemma length_64:
  "length [b0, b1, b2, b3, b4, b5, b6, b7, b8, b9, b10, b11, b12, b13, b14, b15,
     b16, b17, b18, b19, b20, b21, b22, b23, b24, b25, b26, b27, b28, b29, b30, b31,
     b32, b33, b34, b35, b36, b37, b38, b39, b40, b41, b42, b43, b44, b45, b46, b47,
     b48, b49, b50, b51, b52, b53, b54, b55, b56, b57, b58, b59, b60, b61, b62, b63] = 64"
  by simp

lemma sha256_two_blocks:
  assumes "pad m = b1 @ b2" "length b1 = 64" "length b2 = 64"
  shows "sha256 m = digest_bytes (compress (compress H256 b1) b2)"
proof -
  have n: "length (b1 @ b2) div 64 = Suc (Suc 0)"
    by (simp add: assms)
  have "blocks (Suc (Suc 0)) H256 (b1 @ b2) = compress (compress H256 b1) b2"
    by (simp add: assms)
  then show ?thesis
    by (simp only: sha256_def assms(1) n)
qed

lemma sha_k1_inner_block1: "compress H256 [93, 7, 54, 54, 54, 54, 54, 54, 54, 54, 54, 54, 54,
     54, 54, 54, 54, 54, 54, 54, 54, 54, 54, 54, 54, 54, 54, 54, 54, 54, 54, 54, 54, 54, 54, 54,
     54, 54, 54, 54, 54, 54, 54, 54, 54, 54, 54, 54, 54, 54, 54, 54, 54, 54, 54, 54, 54, 54, 54,
     54, 54, 54, 54, 54] = (526452852, 2786145828, 2746991396, 2134991130, 3874374982,
     424118627, 2298575936, 3990524163)"
  by (simp add: sha_eval)

lemma sha_k1_inner_block2: "compress (526452852, 2786145828, 2746991396, 2134991130, 3874374982,
     424118627, 2298575936, 3990524163) [101, 121, 74, 49, 99, 50, 86, 121, 73, 106, 111, 105,
     100, 84, 69, 105, 76, 67, 74, 107, 89, 88, 82, 104, 73, 106, 112, 55, 73, 110, 74, 118, 98,
     71, 85, 105, 79, 105, 74, 104, 90, 71, 49, 112, 98, 105, 74, 57, 102, 81, 61, 61, 128, 0,
     0, 0, 0, 0, 0, 0, 0, 0, 3, 160] = (685385258, 1248398418, 1427979517, 1114919875,
     2617745461, 2697738869, 1010744287, 730356660)"
  by (simp add: sha_eval)

lemma sha_k1_inner_pad: "pad [93, 7, 54, 54, 54, 54, 54, 54, 54, 54, 54, 54, 54, 54, 54, 54, 54,
     54, 54, 54, 54, 54, 54, 54, 54, 54, 54, 54, 54, 54, 54, 54, 54, 54, 54, 54, 54, 54, 54, 54,
     54, 54, 54, 54, 54, 54, 54, 54, 54, 54, 54, 54, 54, 54, 54, 54, 54, 54, 54, 54, 54, 54, 54,
     54, 101, 121, 74, 49, 99, 50, 86, 121, 73, 106, 111, 105, 100, 84, 69, 105, 76, 67, 74,
     107, 89, 88, 82, 104, 73, 106, 112, 55, 73, 110, 74, 118, 98, 71, 85, 105, 79, 105, 74,
     104, 90, 71, 49, 112, 98, 105, 74, 57, 102, 81, 61, 61] = [93, 7, 54, 54, 54, 54, 54, 54,
     54, 54, 54, 54, 54, 54, 54, 54, 54, 54, 54, 54, 54, 54, 54, 54, 54, 54, 54, 54, 54, 54, 54,
     54, 54, 54, 54, 54, 54, 54, 54, 54, 54, 54, 54, 54, 54, 54, 54, 54, 54, 54, 54, 54, 54, 54,
     54, 54, 54, 54, 54, 54, 54, 54, 54, 54] @ [101, 121, 74, 49, 99, 50, 86, 121, 73, 106, 111,
     105, 100, 84, 69, 105, 76, 67, 74, 107, 89, 88, 82, 104, 73, 106, 112, 55, 73, 110, 74,
     118, 98, 71, 85, 105, 79, 105, 74, 104, 90, 71, 49, 112, 98, 105, 74, 57, 102, 81, 61, 61,
     128, 0, 0, 0, 0, 0, 0, 0, 0, 0, 3, 160]"
  by (simp add: pad_len [where n = 116] be8_def be4_def replicate_num)

lemma sha_k1_inner_digest: "digest_bytes (685385258, 1248398418, 1427979517, 1114919875,
     2617745461, 2697738869, 1010744287, 730356660) = [40, 218, 38, 42, 74, 105, 12, 82, 85, 29,
     60, 253, 66, 116, 83, 195, 156, 7, 160, 53, 160, 204, 58, 117, 60, 62, 187, 223, 43, 136,
     91, 180]"
  by (simp add: be4_def)

lemma sha_k1_inner: "sha256 [93, 7, 54, 54, 54, 54, 54, 54, 54, 54, 54, 54, 54, 54, 54, 54, 54,
     54, 54, 54, 54, 54, 54, 54, 54, 54, 54, 54, 54, 54, 54, 54, 54, 54, 54, 54, 54, 54, 54, 54,
     54, 54, 54, 54, 54, 54, 54, 54, 54, 54, 54, 54, 54, 54, 54, 54, 54, 54, 54, 54, 54, 54, 54,
     54, 101, 121, 74, 49, 99, 50, 86, 121, 73, 106, 111, 105, 100, 84, 69, 105, 76, 67, 74,
     107, 89, 88, 82, 104, 73, 106, 112, 55, 73, 110, 74, 118, 98, 71, 85, 105, 79, 105, 74,
     104, 90, 71, 49, 112, 98, 105, 74, 57, 102, 81, 61, 61] = [40, 218, 38, 42, 74, 105, 12,
     82, 85, 29, 60, 253, 66, 116, 83, 195, 156, 7, 160, 53, 160, 204, 58, 117, 60, 62, 187,
     223, 43, 136, 91, 180]"
  by (simp only: sha256_two_blocks [OF sha_k1_inner_pad length_64 length_64] sha_k1_inner_block1 sha_k1_inner_block2 sha_k1_inner_digest)

lemma sha_k1_outer_block1: "compress H256 [55, 109, 92, 92, 92, 92, 92, 92, 92, 92, 92, 92, 92,
     92, 92, 92, 92, 92, 92, 92, 92, 92, 92, 92, 92, 92, 92, 92, 92, 92, 92, 92, 92, 92, 92, 92,
     92, 92, 92, 92, 92, 92, 92, 92, 92, 92, 92, 92, 92, 92, 92, 92, 92, 92, 92, 92, 92, 92, 92,
     92, 92, 92, 92, 92] = (1974777339, 2354631527, 3945632877, 4070271572, 1640888812,
     1625747642, 3503949390, 671053516)"
  by (simp add: sha_eval)

lemma sha_k1_outer_block2: "compress (1974777339, 2354631527, 3945632877, 4070271572,
     1640888812, 1625747642, 3503949390, 671053516) [40, 218, 38, 42, 74, 105, 12, 82, 85, 29,
     60, 253, 66, 116, 83, 195, 156, 7, 160, 53, 160, 204, 58, 117, 60, 62, 187, 223, 43, 136,
     91, 180, 128, 0, 0, 0, 0, 0, 0, 0, 0, 0, 0, 0, 0, 0, 0, 0, 0, 0, 0, 0, 0, 0, 0, 0, 0, 0, 0,
     0, 0, 0, 3, 0] = (1680737121, 3233343576, 1614763898, 3781003709, 3567918700, 2333884627,
     1242857847, 3959194605)"
  by (simp add: sha_eval)

lemma sha_k1_outer_pad: "pad [55, 109, 92, 92, 92, 92, 92, 92, 92, 92, 92, 92, 92, 92, 92, 92,
     92, 92, 92, 92, 92, 92, 92, 92, 92, 92, 92, 92, 92, 92, 92, 92, 92, 92, 92, 92, 92, 92, 92,
     92, 92, 92, 92, 92, 92, 92, 92, 92, 92, 92, 92, 92, 92, 92, 92, 92, 92, 92, 92, 92, 92, 92,
     92, 92, 40, 218, 38, 42, 74, 105, 12, 82, 85, 29, 60, 253, 66, 116, 83, 195, 156, 7, 160,
     53, 160, 204, 58, 117, 60, 62, 187, 223, 43, 136, 91, 180] = [55, 109, 92, 92, 92, 92, 92,
     92, 92, 92, 92, 92, 92, 92, 92, 92, 92, 92, 92, 92, 92, 92, 92, 92, 92, 92, 92, 92, 92, 92,
     92, 92, 92, 92, 92, 92, 92, 92, 92, 92, 92, 92, 92, 92, 92, 92, 92, 92, 92, 92, 92, 92, 92,
     92, 92, 92, 92, 92, 92, 92, 92, 92, 92, 92] @ [40, 218, 38, 42, 74, 105, 12, 82, 85, 29,
     60, 253, 66, 116, 83, 195, 156, 7, 160, 53, 160, 204, 58, 117, 60, 62, 187, 223, 43, 136,
     91, 180, 128, 0, 0, 0, 0, 0, 0, 0, 0, 0, 0, 0, 0, 0, 0, 0, 0, 0, 0, 0, 0, 0, 0, 0, 0, 0, 0,
     0, 0, 0, 3, 0]"
  by (simp add: pad_len [where n = 96] be8_def be4_def replicate_num)

lemma sha_k1_outer_digest: "digest_bytes (1680737121, 3233343576, 1614763898, 3781003709,
     3567918700, 2333884627, 1242857847, 3959194605) = [100, 46, 3, 97, 192, 184, 232, 88, 96,
     63, 87, 122, 225, 93, 137, 189, 212, 170, 30, 108, 139, 28, 64, 211, 74, 20, 129, 119, 235,
     252, 131, 237]"
  by (simp add: be4_def)

lemma sha_k1_outer: "sha256 [55, 109, 92, 92, 92, 92, 92, 92, 92, 92, 92, 92, 92, 92, 92, 92,
     92, 92, 92, 92, 92, 92, 92, 92, 92, 92, 92, 92, 92, 92, 92, 92, 92, 92, 92, 92, 92, 92, 92,
     92, 92, 92, 92, 92, 92, 92, 92, 92, 92, 92, 92, 92, 92, 92, 92, 92, 92, 92, 92, 92, 92, 92,
     92, 92, 40, 218, 38, 42, 74, 105, 12, 82, 85, 29, 60, 253, 66, 116, 83, 195, 156, 7, 160,
     53, 160, 204, 58, 117, 60, 62, 187, 223, 43, 136, 91, 180] = [100, 46, 3, 97, 192, 184,
     232, 88, 96, 63, 87, 122, 225, 93, 137, 189, 212, 170, 30, 108, 139, 28, 64, 211, 74, 20,
     129, 119, 235, 252, 131, 237]"
  by (simp only: sha256_two_blocks [OF sha_k1_outer_pad length_64 length_64] sha_k1_outer_block1 sha_k1_outer_block2 sha_k1_outer_digest)

lemma hmac_k1_key: "utf8_encode (ustr ''k1'') = [107, 49]"
  by (simp add: ustr_def)

lemma hmac_k1_msg: "utf8_encode (ustr ''eyJ1c2VyIjoidTEiLCJkYXRhIjp7InJvbGUiOiJhZG1pbiJ9fQ=='')
     = [101, 121, 74, 49, 99, 50, 86, 121, 73, 106, 111, 105, 100, 84, 69, 105, 76, 67, 74, 107,
     89, 88, 82, 104, 73, 106, 112, 55, 73, 110, 74, 118, 98, 71, 85, 105, 79, 105, 74, 104, 90,
     71, 49, 112, 98, 105, 74, 57, 102, 81, 61, 61]"
  by (simp add: ustr_def)

lemma hmac_k1_ipad: "xor_pad 54 (hmac_key [107, 49]) = [93, 7, 54, 54, 54, 54, 54, 54, 54, 54,
     54, 54, 54, 54, 54, 54, 54, 54, 54, 54, 54, 54, 54, 54, 54, 54, 54, 54, 54, 54, 54, 54, 54,
     54, 54, 54, 54, 54, 54, 54, 54, 54, 54, 54, 54, 54, 54, 54, 54, 54, 54, 54, 54, 54, 54, 54,
     54, 54, 54, 54, 54, 54, 54, 54]"
  by (simp add: xor_pad_def hmac_key_def replicate_num)

lemma hmac_k1_opad: "xor_pad 92 (hmac_key [107, 49]) = [55, 109, 92, 92, 92, 92, 92, 92, 92, 92,
     92, 92, 92, 92, 92, 92, 92, 92, 92, 92, 92, 92, 92, 92, 92, 92, 92, 92, 92, 92, 92, 92, 92,
     92, 92, 92, 92, 92, 92, 92, 92, 92, 92, 92, 92, 92, 92, 92, 92, 92, 92, 92, 92, 92, 92, 92,
     92, 92, 92, 92, 92, 92, 92, 92]"
  by (simp add: xor_pad_def hmac_key_def replicate_num)

lemma hmac_k1_bytes: "hmac_sha256 [107, 49] [101, 121, 74, 49, 99, 50, 86, 121, 73, 106, 111,
     105, 100, 84, 69, 105, 76, 67, 74, 107, 89, 88, 82, 104, 73, 106, 112, 55, 73, 110, 74,
     118, 98, 71, 85, 105, 79, 105, 74, 104, 90, 71, 49, 112, 98, 105, 74, 57, 102, 81, 61, 61]
     = [100, 46, 3, 97, 192, 184, 232, 88, 96, 63, 87, 122, 225, 93, 137, 189, 212, 170, 30,
     108, 139, 28, 64, 211, 74, 20, 129, 119, 235, 252, 131, 237]"
  by (simp add: hmac_sha256_def hmac_k1_ipad hmac_k1_opad sha_k1_inner sha_k1_outer)

lemma hmac_k1_base64: "base64_encode [100, 46, 3, 97, 192, 184, 232, 88, 96, 63, 87, 122, 225,
     93, 137, 189, 212, 170, 30, 108, 139, 28, 64, 211, 74, 20, 129, 119, 235, 252, 131, 237] =
     ustr ''ZC4DYcC46FhgP1d64V2JvdSqHmyLHEDTShSBd+v8g+0=''"
  by (simp add: ustr_def b64_char_def)

lemma hmac_k1: "createHmac_digest (ustr ''k1'') (ustr
     ''eyJ1c2VyIjoidTEiLCJkYXRhIjp7InJvbGUiOiJhZG1pbiJ9fQ=='') = ustr
     ''ZC4DYcC46FhgP1d64V2JvdSqHmyLHEDTShSBd+v8g+0=''"
  by (simp only: createHmac_digest_def hmac_k1_key hmac_k1_msg hmac_k1_bytes hmac_k1_base64)

lemma sha_k2_inner_block1: "compress H256 [93, 4, 54, 54, 54, 54, 54, 54, 54, 54, 54, 54, 54,
     54, 54, 54, 54, 54, 54, 54, 54, 54, 54, 54, 54, 54, 54, 54, 54, 54, 54, 54, 54, 54, 54, 54,
     54, 54, 54, 54, 54, 54, 54, 54, 54, 54, 54, 54, 54, 54, 54, 54, 54, 54, 54, 54, 54, 54, 54,
     54, 54, 54, 54, 54] = (2243098587, 1026619679, 3002176149, 1569189286, 4003228655,
     955915944, 1172159991, 3396288623)"
  by (simp add: sha_eval)

lemma sha_k2_inner_block2: "compress (2243098587, 1026619679, 3002176149, 1569189286,
     4003228655, 955915944, 1172159991, 3396288623) [101, 121, 74, 49, 99, 50, 86, 121, 73, 106,
     111, 105, 100, 84, 69, 105, 76, 67, 74, 107, 89, 88, 82, 104, 73, 106, 112, 55, 73, 110,
     74, 118, 98, 71, 85, 105, 79, 105, 74, 104, 90, 71, 49, 112, 98, 105, 74, 57, 102, 81, 61,
     61, 128, 0, 0, 0, 0, 0, 0, 0, 0, 0, 3, 160] = (1576467160, 2304721478, 2379341837,
     2502654399, 3611895388, 3031270614, 2322884539, 2899388304)"
  by (simp add: sha_eval)

lemma sha_k2_inner_pad: "pad [93, 4, 54, 54, 54, 54, 54, 54, 54, 54, 54, 54, 54, 54, 54, 54, 54,
     54, 54, 54, 54, 54, 54, 54, 54, 54, 54, 54, 54, 54, 54, 54, 54, 54, 54, 54, 54, 54, 54, 54,
     54, 54, 54, 54, 54, 54, 54, 54, 54, 54, 54, 54, 54, 54, 54, 54, 54, 54, 54, 54, 54, 54, 54,
     54, 101, 121, 74, 49, 99, 50, 86, 121, 73, 106, 111, 105, 100, 84, 69, 105, 76, 67, 74,
     107, 89, 88, 82, 104, 73, 106, 112, 55, 73, 110, 74, 118, 98, 71, 85, 105, 79, 105, 74,
     104, 90, 71, 49, 112, 98, 105, 74, 57, 102, 81, 61, 61] = [93, 4, 54, 54, 54, 54, 54, 54,
     54, 54, 54, 54, 54, 54, 54, 54, 54, 54, 54, 54, 54, 54, 54, 54, 54, 54, 54, 54, 54, 54, 54,
     54, 54, 54, 54, 54, 54, 54, 54, 54, 54, 54, 54, 54, 54, 54, 54, 54, 54, 54, 54, 54, 54, 54,
     54, 54, 54, 54, 54, 54, 54, 54, 54, 54] @ [101, 121, 74, 49, 99, 50, 86, 121, 73, 106, 111,
     105, 100, 84, 69, 105, 76, 67, 74, 107, 89, 88, 82, 104, 73, 106, 112, 55, 73, 110, 74,
     118, 98, 71, 85, 105, 79, 105, 74, 104, 90, 71, 49, 112, 98, 105, 74, 57, 102, 81, 61, 61,
     128, 0, 0, 0, 0, 0, 0, 0, 0, 0, 3, 160]"
  by (simp add: pad_len [where n = 116] be8_def be4_def replicate_num)

lemma sha_k2_inner_digest: "digest_bytes (1576467160, 2304721478, 2379341837, 2502654399,
     3611895388, 3031270614, 2322884539, 2899388304) = [93, 246, 250, 216, 137, 95, 66, 70, 141,
     209, 224, 13, 149, 43, 121, 191, 215, 73, 38, 92, 180, 173, 132, 214, 138, 116, 103, 187,
     172, 209, 39, 144]"
  by (simp add: be4_def)

lemma sha_k2_inner: "sha256 [93, 4, 54, 54, 54, 54, 54, 54, 54, 54, 54, 54, 54, 54, 54, 54, 54,
     54, 54, 54, 54, 54, 54, 54, 54, 54, 54, 54, 54, 54, 54, 54, 54, 54, 54, 54, 54, 54, 54, 54,
     54, 54, 54, 54, 54, 54, 54, 54, 54, 54, 54, 54, 54, 54, 54, 54, 54, 54, 54, 54, 54, 54, 54,
     54, 101, 121, 74, 49, 99, 50, 86, 121, 73, 106, 111, 105, 100, 84, 69, 105, 76, 67, 74,
     107, 89, 88, 82, 104, 73, 106, 112, 55, 73, 110, 74, 118, 98, 71, 85, 105, 79, 105, 74,
     104, 90, 71, 49, 112, 98, 105, 74, 57, 102, 81, 61, 61] = [93, 246, 250, 216, 137, 95, 66,
     70, 141, 209, 224, 13, 149, 43, 121, 191, 215, 73, 38, 92, 180, 173, 132, 214, 138, 116,
     103, 187, 172, 209, 39, 144]"
  by (simp only: sha256_two_blocks [OF sha_k2_inner_pad length_64 length_64] sha_k2_inner_block1 sha_k2_inner_block2 sha_k2_inner_digest)

lemma sha_k2_outer_block1: "compress H256 [55, 110, 92, 92, 92, 92, 92, 92, 92, 92, 92, 92, 92,
     92, 92, 92, 92, 92, 92, 92, 92, 92, 92, 92, 92, 92, 92, 92, 92, 92, 92, 92, 92, 92, 92, 92,
     92, 92, 92, 92, 92, 92, 92, 92, 92, 92, 92, 92, 92, 92, 92, 92, 92, 92, 92, 92, 92, 92, 92,
     92, 92, 92, 92, 92] = (941680688, 1659938342, 1731285776, 3272889417, 2013175451,
     2990784798, 2470458857, 3788911194)"
  by (simp add: sha_eval)

lemma sha_k2_outer_block2: "compress (941680688, 1659938342, 1731285776, 3272889417, 2013175451,
     2990784798, 2470458857, 3788911194) [93, 246, 250, 216, 137, 95, 66, 70, 141, 209, 224, 13,
     149, 43, 121, 191, 215, 73, 38, 92, 180, 173, 132, 214, 138, 116, 103, 187, 172, 209, 39,
     144, 128, 0, 0, 0, 0, 0, 0, 0, 0, 0, 0, 0, 0, 0, 0, 0, 0, 0, 0, 0, 0, 0, 0, 0, 0, 0, 0, 0,
     0, 0, 3, 0] = (380668316, 1104810329, 3924957691, 11184858, 1023062943, 1740618944,
     157385787, 2615016410)"
  by (simp add: sha_eval)

lemma sha_k2_outer_pad: "pad [55, 110, 92, 92, 92, 92, 92, 92, 92, 92, 92, 92, 92, 92, 92, 92,
     92, 92, 92, 92, 92, 92, 92, 92, 92, 92, 92, 92, 92, 92, 92, 92, 92, 92, 92, 92, 92, 92, 92,
     92, 92, 92, 92, 92, 92, 92, 92, 92, 92, 92, 92, 92, 92, 92, 92, 92, 92, 92, 92, 92, 92, 92,
     92, 92, 93, 246, 250, 216, 137, 95, 66, 70, 141, 209, 224, 13, 149, 43, 121, 191, 215, 73,
     38, 92, 180, 173, 132, 214, 138, 116, 103, 187, 172, 209, 39, 144] = [55, 110, 92, 92, 92,
     92, 92, 92, 92, 92, 92, 92, 92, 92, 92, 92, 92, 92, 92, 92, 92, 92, 92, 92, 92, 92, 92, 92,
     92, 92, 92, 92, 92, 92, 92, 92, 92, 92, 92, 92, 92, 92, 92, 92, 92, 92, 92, 92, 92, 92, 92,
     92, 92, 92, 92, 92, 92, 92, 92, 92, 92, 92, 92, 92] @ [93, 246, 250, 216, 137, 95, 66, 70,
     141, 209, 224, 13, 149, 43, 121, 191, 215, 73, 38, 92, 180, 173, 132, 214, 138, 116, 103,
     187, 172, 209, 39, 144, 128, 0, 0, 0, 0, 0, 0, 0, 0, 0, 0, 0, 0, 0, 0, 0, 0, 0, 0, 0, 0, 0,
     0, 0, 0, 0, 0, 0, 0, 0, 3, 0]"
  by (simp add: pad_len [where n = 96] be8_def be4_def replicate_num)

lemma sha_k2_outer_digest: "digest_bytes (380668316, 1104810329, 3924957691, 11184858,
     1023062943, 1740618944, 157385787, 2615016410) = [22, 176, 137, 156, 65, 218, 17, 89, 233,
     242, 25, 251, 0, 170, 170, 218, 60, 250, 179, 159, 103, 191, 188, 192, 9, 97, 132, 59, 155,
     221, 251, 218]"
  by (simp add: be4_def)

lemma sha_k2_outer: "sha256 [55, 110, 92, 92, 92, 92, 92, 92, 92, 92, 92, 92, 92, 92, 92, 92,
     92, 92, 92, 92, 92, 92, 92, 92, 92, 92, 92, 92, 92, 92, 92, 92, 92, 92, 92, 92, 92, 92, 92,
     92, 92, 92, 92, 92, 92, 92, 92, 92, 92, 92, 92, 92, 92, 92, 92, 92, 92, 92, 92, 92, 92, 92,
     92, 92, 93, 246, 250, 216, 137, 95, 66, 70, 141, 209, 224, 13, 149, 43, 121, 191, 215, 73,
     38, 92, 180, 173, 132, 214, 138, 116, 103, 187, 172, 209, 39, 144] = [22, 176, 137, 156,
     65, 218, 17, 89, 233, 242, 25, 251, 0, 170, 170, 218, 60, 250, 179, 159, 103, 191, 188,
     192, 9, 97, 132, 59, 155, 221, 251, 218]"
  by (simp only: sha256_two_blocks [OF sha_k2_outer_pad length_64 length_64] sha_k2_outer_block1 sha_k2_outer_block2 sha_k2_outer_digest)

lemma hmac_k2_key: "utf8_encode (ustr ''k2'') = [107, 50]"
  by (simp add: ustr_def)

lemma hmac_k2_msg: "utf8_encode (ustr ''eyJ1c2VyIjoidTEiLCJkYXRhIjp7InJvbGUiOiJhZG1pbiJ9fQ=='')
     = [101, 121, 74, 49, 99, 50, 86, 121, 73, 106, 111, 105, 100, 84, 69, 105, 76, 67, 74, 107,
     89, 88, 82, 104, 73, 106, 112, 55, 73, 110, 74, 118, 98, 71, 85, 105, 79, 105, 74, 104, 90,
     71, 49, 112, 98, 105, 74, 57, 102, 81, 61, 61]"
  by (simp add: ustr_def)

lemma hmac_k2_ipad: "xor_pad 54 (hmac_key [107, 50]) = [93, 4, 54, 54, 54, 54, 54, 54, 54, 54,
     54, 54, 54, 54, 54, 54, 54, 54, 54, 54, 54, 54, 54, 54, 54, 54, 54, 54, 54, 54, 54, 54, 54,
     54, 54, 54, 54, 54, 54, 54, 54, 54, 54, 54, 54, 54, 54, 54, 54, 54, 54, 54, 54, 54, 54, 54,
     54, 54, 54, 54, 54, 54, 54, 54]"
  by (simp add: xor_pad_def hmac_key_def replicate_num)

lemma hmac_k2_opad: "xor_pad 92 (hmac_key [107, 50]) = [55, 110, 92, 92, 92, 92, 92, 92, 92, 92,
     92, 92, 92, 92, 92, 92, 92, 92, 92, 92, 92, 92, 92, 92, 92, 92, 92, 92, 92, 92, 92, 92, 92,
     92, 92, 92, 92, 92, 92, 92, 92, 92, 92, 92, 92, 92, 92, 92, 92, 92, 92, 92, 92, 92, 92, 92,
     92, 92, 92, 92, 92, 92, 92, 92]"
  by (simp add: xor_pad_def hmac_key_def replicate_num)

lemma hmac_k2_bytes: "hmac_sha256 [107, 50] [101, 121, 74, 49, 99, 50, 86, 121, 73, 106, 111,
     105, 100, 84, 69, 105, 76, 67, 74, 107, 89, 88, 82, 104, 73, 106, 112, 55, 73, 110, 74,
     118, 98, 71, 85, 105, 79, 105, 74, 104, 90, 71, 49, 112, 98, 105, 74, 57, 102, 81, 61, 61]
     = [22, 176, 137, 156, 65, 218, 17, 89, 233, 242, 25, 251, 0, 170, 170, 218, 60, 250, 179,
     159, 103, 191, 188, 192, 9, 97, 132, 59, 155, 221, 251, 218]"
  by (simp add: hmac_sha256_def hmac_k2_ipad hmac_k2_opad sha_k2_inner sha_k2_outer)

lemma hmac_k2_base64: "base64_encode [22, 176, 137, 156, 65, 218, 17, 89, 233, 242, 25, 251, 0,
     170, 170, 218, 60, 250, 179, 159, 103, 191, 188, 192, 9, 97, 132, 59, 155, 221, 251, 218] =
     ustr ''FrCJnEHaEVnp8hn7AKqq2jz6s59nv7zACWGEO5vd+9o=''"
  by (simp add: ustr_def b64_char_def)

lemma hmac_k2: "createHmac_digest (ustr ''k2'') (ustr
     ''eyJ1c2VyIjoidTEiLCJkYXRhIjp7InJvbGUiOiJhZG1pbiJ9fQ=='') = ustr
     ''FrCJnEHaEVnp8hn7AKqq2jz6s59nv7zACWGEO5vd+9o=''"
  by (simp only: createHmac_digest_def hmac_k2_key hmac_k2_msg hmac_k2_bytes hmac_k2_base64)

lemma sha_k1_obj_inner_block1: "compress H256 [93, 7, 54, 54, 54, 54, 54, 54, 54, 54, 54, 54,
     54, 54, 54, 54, 54, 54, 54, 54, 54, 54, 54, 54, 54, 54, 54, 54, 54, 54, 54, 54, 54, 54, 54,
     54, 54, 54, 54, 54, 54, 54, 54, 54, 54, 54, 54, 54, 54, 54, 54, 54, 54, 54, 54, 54, 54, 54,
     54, 54, 54, 54, 54, 54] = (526452852, 2786145828, 2746991396, 2134991130, 3874374982,
     424118627, 2298575936, 3990524163)"
  by (simp add: sha_eval)

lemma sha_k1_obj_inner_block2: "compress (526452852, 2786145828, 2746991396, 2134991130,
     3874374982, 424118627, 2298575936, 3990524163) [101, 51, 48, 61, 128, 0, 0, 0, 0, 0, 0, 0,
     0, 0, 0, 0, 0, 0, 0, 0, 0, 0, 0, 0, 0, 0, 0, 0, 0, 0, 0, 0, 0, 0, 0, 0, 0, 0, 0, 0, 0, 0,
     0, 0, 0, 0, 0, 0, 0, 0, 0, 0, 0, 0, 0, 0, 0, 0, 0, 0, 0, 0, 2, 32] = (3150585732,
     2302554502, 2837263244, 702326665, 3690323988, 1109379178, 444637702, 1161748532)"
  by (simp add: sha_eval)

lemma sha_k1_obj_inner_pad: "pad [93, 7, 54, 54, 54, 54, 54, 54, 54, 54, 54, 54, 54, 54, 54, 54,
     54, 54, 54, 54, 54, 54, 54, 54, 54, 54, 54, 54, 54, 54, 54, 54, 54, 54, 54, 54, 54, 54, 54,
     54, 54, 54, 54, 54, 54, 54, 54, 54, 54, 54, 54, 54, 54, 54, 54, 54, 54, 54, 54, 54, 54, 54,
     54, 54, 101, 51, 48, 61] = [93, 7, 54, 54, 54, 54, 54, 54, 54, 54, 54, 54, 54, 54, 54, 54,
     54, 54, 54, 54, 54, 54, 54, 54, 54, 54, 54, 54, 54, 54, 54, 54, 54, 54, 54, 54, 54, 54, 54,
     54, 54, 54, 54, 54, 54, 54, 54, 54, 54, 54, 54, 54, 54, 54, 54, 54, 54, 54, 54, 54, 54, 54,
     54, 54] @ [101, 51, 48, 61, 128, 0, 0, 0, 0, 0, 0, 0, 0, 0, 0, 0, 0, 0, 0, 0, 0, 0, 0, 0,
     0, 0, 0, 0, 0, 0, 0, 0, 0, 0, 0, 0, 0, 0, 0, 0, 0, 0, 0, 0, 0, 0, 0, 0, 0, 0, 0, 0, 0, 0,
     0, 0, 0, 0, 0, 0, 0, 0, 2, 32]"
  by (simp add: pad_len [where n = 68] be8_def be4_def replicate_num)

lemma sha_k1_obj_inner_digest: "digest_bytes (3150585732, 2302554502, 2837263244, 702326665,
     3690323988, 1109379178, 444637702, 1161748532) = [187, 202, 31, 132, 137, 62, 49, 134, 169,
     29, 51, 140, 41, 220, 167, 137, 219, 245, 224, 20, 66, 31, 200, 106, 26, 128, 162, 6, 69,
     62, 224, 52]"
  by (simp add: be4_def)

lemma sha_k1_obj_inner: "sha256 [93, 7, 54, 54, 54, 54, 54, 54, 54, 54, 54, 54, 54, 54, 54, 54,
     54, 54, 54, 54, 54, 54, 54, 54, 54, 54, 54, 54, 54, 54, 54, 54, 54, 54, 54, 54, 54, 54, 54,
     54, 54, 54, 54, 54, 54, 54, 54, 54, 54, 54, 54, 54, 54, 54, 54, 54, 54, 54, 54, 54, 54, 54,
     54, 54, 101, 51, 48, 61] = [187, 202, 31, 132, 137, 62, 49, 134, 169, 29, 51, 140, 41, 220,
     167, 137, 219, 245, 224, 20, 66, 31, 200, 106, 26, 128, 162, 6, 69, 62, 224, 52]"
  by (simp only: sha256_two_blocks [OF sha_k1_obj_inner_pad length_64 length_64] sha_k1_obj_inner_block1 sha_k1_obj_inner_block2 sha_k1_obj_inner_digest)

lemma sha_k1_obj_outer_block1: "compress H256 [55, 109, 92, 92, 92, 92, 92, 92, 92, 92, 92, 92,
     92, 92, 92, 92, 92, 92, 92, 92, 92, 92, 92, 92, 92, 92, 92, 92, 92, 92, 92, 92, 92, 92, 92,
     92, 92, 92, 92, 92, 92, 92, 92, 92, 92, 92, 92, 92, 92, 92, 92, 92, 92, 92, 92, 92, 92, 92,
     92, 92, 92, 92, 92, 92] = (1974777339, 2354631527, 3945632877, 4070271572, 1640888812,
     1625747642, 3503949390, 671053516)"
  by (simp add: sha_eval)

lemma sha_k1_obj_outer_block2: "compress (1974777339, 2354631527, 3945632877, 4070271572,
     1640888812, 1625747642, 3503949390, 671053516) [187, 202, 31, 132, 137, 62, 49, 134, 169,
     29, 51, 140, 41, 220, 167, 137, 219, 245, 224, 20, 66, 31, 200, 106, 26, 128, 162, 6, 69,
     62, 224, 52, 128, 0, 0, 0, 0, 0, 0, 0, 0, 0, 0, 0, 0, 0, 0, 0, 0, 0, 0, 0, 0, 0, 0, 0, 0,
     0, 0, 0, 0, 0, 3, 0] = (1311147829, 2440011325, 1134686481, 1226499070, 4097875706,
     3755617723, 2713236714, 2698329899)"
  by (simp add: sha_eval)

lemma sha_k1_obj_outer_pad: "pad [55, 109, 92, 92, 92, 92, 92, 92, 92, 92, 92, 92, 92, 92, 92,
     92, 92, 92, 92, 92, 92, 92, 92, 92, 92, 92, 92, 92, 92, 92, 92, 92, 92, 92, 92, 92, 92, 92,
     92, 92, 92, 92, 92, 92, 92, 92, 92, 92, 92, 92, 92, 92, 92, 92, 92, 92, 92, 92, 92, 92, 92,
     92, 92, 92, 187, 202, 31, 132, 137, 62, 49, 134, 169, 29, 51, 140, 41, 220, 167, 137, 219,
     245, 224, 20, 66, 31, 200, 106, 26, 128, 162, 6, 69, 62, 224, 52] = [55, 109, 92, 92, 92,
     92, 92, 92, 92, 92, 92, 92, 92, 92, 92, 92, 92, 92, 92, 92, 92, 92, 92, 92, 92, 92, 92, 92,
     92, 92, 92, 92, 92, 92, 92, 92, 92, 92, 92, 92, 92, 92, 92, 92, 92, 92, 92, 92, 92, 92, 92,
     92, 92, 92, 92, 92, 92, 92, 92, 92, 92, 92, 92, 92] @ [187, 202, 31, 132, 137, 62, 49, 134,
     169, 29, 51, 140, 41, 220, 167, 137, 219, 245, 224, 20, 66, 31, 200, 106, 26, 128, 162, 6,
     69, 62, 224, 52, 128, 0, 0, 0, 0, 0, 0, 0, 0, 0, 0, 0, 0, 0, 0, 0, 0, 0, 0, 0, 0, 0, 0, 0,
     0, 0, 0, 0, 0, 0, 3, 0]"
  by (simp add: pad_len [where n = 96] be8_def be4_def replicate_num)

lemma sha_k1_obj_outer_digest: "digest_bytes (1311147829, 2440011325, 1134686481, 1226499070,
     4097875706, 3755617723, 2713236714, 2698329899) = [78, 38, 135, 53, 145, 111, 158, 61, 67,
     161, 241, 17, 73, 26, 227, 254, 244, 64, 158, 250, 223, 218, 45, 187, 161, 184, 180, 234,
     160, 213, 63, 43]"
  by (simp add: be4_def)

lemma sha_k1_obj_outer: "sha256 [55, 109, 92, 92, 92, 92, 92, 92, 92, 92, 92, 92, 92, 92, 92,
     92, 92, 92, 92, 92, 92, 92, 92, 92, 92, 92, 92, 92, 92, 92, 92, 92, 92, 92, 92, 92, 92, 92,
     92, 92, 92, 92, 92, 92, 92, 92, 92, 92, 92, 92, 92, 92, 92, 92, 92, 92, 92, 92, 92, 92, 92,
     92, 92, 92, 187, 202, 31, 132, 137, 62, 49, 134, 169, 29, 51, 140, 41, 220, 167, 137, 219,
     245, 224, 20, 66, 31, 200, 106, 26, 128, 162, 6, 69, 62, 224, 52] = [78, 38, 135, 53, 145,
     111, 158, 61, 67, 161, 241, 17, 73, 26, 227, 254, 244, 64, 158, 250, 223, 218, 45, 187,
     161, 184, 180, 234, 160, 213, 63, 43]"
  by (simp only: sha256_two_blocks [OF sha_k1_obj_outer_pad length_64 length_64] sha_k1_obj_outer_block1 sha_k1_obj_outer_block2 sha_k1_obj_outer_digest)

lemma hmac_k1_obj_key: "utf8_encode (ustr ''k1'') = [107, 49]"
  by (simp add: ustr_def)

lemma hmac_k1_obj_msg: "utf8_encode (ustr ''e30='') = [101, 51, 48, 61]"
  by (simp add: ustr_def)

lemma hmac_k1_obj_ipad: "xor_pad 54 (hmac_key [107, 49]) = [93, 7, 54, 54, 54, 54, 54, 54, 54,
     54, 54, 54, 54, 54, 54, 54, 54, 54, 54, 54, 54, 54, 54, 54, 54, 54, 54, 54, 54, 54, 54, 54,
     54, 54, 54, 54, 54, 54, 54, 54, 54, 54, 54, 54, 54, 54, 54, 54, 54, 54, 54, 54, 54, 54, 54,
     54, 54, 54, 54, 54, 54, 54, 54, 54]"
  by (simp add: xor_pad_def hmac_key_def replicate_num)

lemma hmac_k1_obj_opad: "xor_pad 92 (hmac_key [107, 49]) = [55, 109, 92, 92, 92, 92, 92, 92, 92,
     92, 92, 92, 92, 92, 92, 92, 92, 92, 92, 92, 92, 92, 92, 92, 92, 92, 92, 92, 92, 92, 92, 92,
     92, 92, 92, 92, 92, 92, 92, 92, 92, 92, 92, 92, 92, 92, 92, 92, 92, 92, 92, 92, 92, 92, 92,
     92, 92, 92, 92, 92, 92, 92, 92, 92]"
  by (simp add: xor_pad_def hmac_key_def replicate_num)

lemma hmac_k1_obj_bytes: "hmac_sha256 [107, 49] [101, 51, 48, 61] = [78, 38, 135, 53, 145, 111,
     158, 61, 67, 161, 241, 17, 73, 26, 227, 254, 244, 64, 158, 250, 223, 218, 45, 187, 161,
     184, 180, 234, 160, 213, 63, 43]"
  by (simp add: hmac_sha256_def hmac_k1_obj_ipad hmac_k1_obj_opad sha_k1_obj_inner sha_k1_obj_outer)

lemma hmac_k1_obj_base64: "base64_encode [78, 38, 135, 53, 145, 111, 158, 61, 67, 161, 241, 17,
     73, 26, 227, 254, 244, 64, 158, 250, 223, 218, 45, 187, 161, 184, 180, 234, 160, 213, 63,
     43] = ustr ''TiaHNZFvnj1DofERSRrj/vRAnvrf2i27obi06qDVPys=''"
  by (simp add: ustr_def b64_char_def)

lemma hmac_k1_obj: "createHmac_digest (ustr ''k1'') (ustr ''e30='') = ustr
     ''TiaHNZFvnj1DofERSRrj/vRAnvrf2i27obi06qDVPys=''"
  by (simp only: createHmac_digest_def hmac_k1_obj_key hmac_k1_obj_msg hmac_k1_obj_bytes hmac_k1_obj_base64)

lemma sha_k1_bad_inner_block1: "compress H256 [93, 7, 54, 54, 54, 54, 54, 54, 54, 54, 54, 54,
     54, 54, 54, 54, 54, 54, 54, 54, 54, 54, 54, 54, 54, 54, 54, 54, 54, 54, 54, 54, 54, 54, 54,
     54, 54, 54, 54, 54, 54, 54, 54, 54, 54, 54, 54, 54, 54, 54, 54, 54, 54, 54, 54, 54, 54, 54,
     54, 54, 54, 54, 54, 54] = (526452852, 2786145828, 2746991396, 2134991130, 3874374982,
     424118627, 2298575936, 3990524163)"
  by (simp add: sha_eval)

lemma sha_k1_bad_inner_block2: "compress (526452852, 2786145828, 2746991396, 2134991130,
     3874374982, 424118627, 2298575936, 3990524163) [89, 81, 61, 61, 128, 0, 0, 0, 0, 0, 0, 0,
     0, 0, 0, 0, 0, 0, 0, 0, 0, 0, 0, 0, 0, 0, 0, 0, 0, 0, 0, 0, 0, 0, 0, 0, 0, 0, 0, 0, 0, 0,
     0, 0, 0, 0, 0, 0, 0, 0, 0, 0, 0, 0, 0, 0, 0, 0, 0, 0, 0, 0, 2, 32] = (1766148204,
     2943338425, 4142970441, 1827421212, 2031297094, 1351520376, 1918753758, 1078455827)"
  by (simp add: sha_eval)

lemma sha_k1_bad_inner_pad: "pad [93, 7, 54, 54, 54, 54, 54, 54, 54, 54, 54, 54, 54, 54, 54, 54,
     54, 54, 54, 54, 54, 54, 54, 54, 54, 54, 54, 54, 54, 54, 54, 54, 54, 54, 54, 54, 54, 54, 54,
     54, 54, 54, 54, 54, 54, 54, 54, 54, 54, 54, 54, 54, 54, 54, 54, 54, 54, 54, 54, 54, 54, 54,
     54, 54, 89, 81, 61, 61] = [93, 7, 54, 54, 54, 54, 54, 54, 54, 54, 54, 54, 54, 54, 54, 54,
     54, 54, 54, 54, 54, 54, 54, 54, 54, 54, 54, 54, 54, 54, 54, 54, 54, 54, 54, 54, 54, 54, 54,
     54, 54, 54, 54, 54, 54, 54, 54, 54, 54, 54, 54, 54, 54, 54, 54, 54, 54, 54, 54, 54, 54, 54,
     54, 54] @ [89, 81, 61, 61, 128, 0, 0, 0, 0, 0, 0, 0, 0, 0, 0, 0, 0, 0, 0, 0, 0, 0, 0, 0, 0,
     0, 0, 0, 0, 0, 0, 0, 0, 0, 0, 0, 0, 0, 0, 0, 0, 0, 0, 0, 0, 0, 0, 0, 0, 0, 0, 0, 0, 0, 0,
     0, 0, 0, 0, 0, 0, 0, 2, 32]"
  by (simp add: pad_len [where n = 68] be8_def be4_def replicate_num)

lemma sha_k1_bad_inner_digest: "digest_bytes (1766148204, 2943338425, 4142970441, 1827421212,
     2031297094, 1351520376, 1918753758, 1078455827) = [105, 69, 72, 108, 175, 111, 199, 185,
     246, 240, 182, 73, 108, 236, 60, 28, 121, 19, 34, 70, 80, 142, 144, 120, 114, 93, 219, 222,
     64, 71, 238, 19]"
  by (simp add: be4_def)

lemma sha_k1_bad_inner: "sha256 [93, 7, 54, 54, 54, 54, 54, 54, 54, 54, 54, 54, 54, 54, 54, 54,
     54, 54, 54, 54, 54, 54, 54, 54, 54, 54, 54, 54, 54, 54, 54, 54, 54, 54, 54, 54, 54, 54, 54,
     54, 54, 54, 54, 54, 54, 54, 54, 54, 54, 54, 54, 54, 54, 54, 54, 54, 54, 54, 54, 54, 54, 54,
     54, 54, 89, 81, 61, 61] = [105, 69, 72, 108, 175, 111, 199, 185, 246, 240, 182, 73, 108,
     236, 60, 28, 121, 19, 34, 70, 80, 142, 144, 120, 114, 93, 219, 222, 64, 71, 238, 19]"
  by (simp only: sha256_two_blocks [OF sha_k1_bad_inner_pad length_64 length_64] sha_k1_bad_inner_block1 sha_k1_bad_inner_block2 sha_k1_bad_inner_digest)

lemma sha_k1_bad_outer_block1: "compress H256 [55, 109, 92, 92, 92, 92, 92, 92, 92, 92, 92, 92,
     92, 92, 92, 92, 92, 92, 92, 92, 92, 92, 92, 92, 92, 92, 92, 92, 92, 92, 92, 92, 92, 92, 92,
     92, 92, 92, 92, 92, 92, 92, 92, 92, 92, 92, 92, 92, 92, 92, 92, 92, 92, 92, 92, 92, 92, 92,
     92, 92, 92, 92, 92, 92] = (1974777339, 2354631527, 3945632877, 4070271572, 1640888812,
     1625747642, 3503949390, 671053516)"
  by (simp add: sha_eval)

lemma sha_k1_bad_outer_block2: "compress (1974777339, 2354631527, 3945632877, 4070271572,
     1640888812, 1625747642, 3503949390, 671053516) [105, 69, 72, 108, 175, 111, 199, 185, 246,
     240, 182, 73, 108, 236, 60, 28, 121, 19, 34, 70, 80, 142, 144, 120, 114, 93, 219, 222, 64,
     71, 238, 19, 128, 0, 0, 0, 0, 0, 0, 0, 0, 0, 0, 0, 0, 0, 0, 0, 0, 0, 0, 0, 0, 0, 0, 0, 0,
     0, 0, 0, 0, 0, 3, 0] = (97183487, 104793017, 4173576690, 4155592956, 245868934, 3515154968,
     3162418202, 516380759)"
  by (simp add: sha_eval)

lemma sha_k1_bad_outer_pad: "pad [55, 109, 92, 92, 92, 92, 92, 92, 92, 92, 92, 92, 92, 92, 92,
     92, 92, 92, 92, 92, 92, 92, 92, 92, 92, 92, 92, 92, 92, 92, 92, 92, 92, 92, 92, 92, 92, 92,
     92, 92, 92, 92, 92, 92, 92, 92, 92, 92, 92, 92, 92, 92, 92, 92, 92, 92, 92, 92, 92, 92, 92,
     92, 92, 92, 105, 69, 72, 108, 175, 111, 199, 185, 246, 240, 182, 73, 108, 236, 60, 28, 121,
     19, 34, 70, 80, 142, 144, 120, 114, 93, 219, 222, 64, 71, 238, 19] = [55, 109, 92, 92, 92,
     92, 92, 92, 92, 92, 92, 92, 92, 92, 92, 92, 92, 92, 92, 92, 92, 92, 92, 92, 92, 92, 92, 92,
     92, 92, 92, 92, 92, 92, 92, 92, 92, 92, 92, 92, 92, 92, 92, 92, 92, 92, 92, 92, 92, 92, 92,
     92, 92, 92, 92, 92, 92, 92, 92, 92, 92, 92, 92, 92] @ [105, 69, 72, 108, 175, 111, 199,
     185, 246, 240, 182, 73, 108, 236, 60, 28, 121, 19, 34, 70, 80, 142, 144, 120, 114, 93, 219,
     222, 64, 71, 238, 19, 128, 0, 0, 0, 0, 0, 0, 0, 0, 0, 0, 0, 0, 0, 0, 0, 0, 0, 0, 0, 0, 0,
     0, 0, 0, 0, 0, 0, 0, 0, 3, 0]"
  by (simp add: pad_len [where n = 96] be8_def be4_def replicate_num)

lemma sha_k1_bad_outer_digest: "digest_bytes (97183487, 104793017, 4173576690, 4155592956,
     245868934, 3515154968, 3162418202, 516380759) = [5, 202, 230, 255, 6, 63, 3, 185, 248, 195,
     185, 242, 247, 177, 80, 252, 14, 167, 169, 134, 209, 133, 2, 24, 188, 126, 172, 26, 30,
     199, 88, 87]"
  by (simp add: be4_def)

lemma sha_k1_bad_outer: "sha256 [55, 109, 92, 92, 92, 92, 92, 92, 92, 92, 92, 92, 92, 92, 92,
     92, 92, 92, 92, 92, 92, 92, 92, 92, 92, 92, 92, 92, 92, 92, 92, 92, 92, 92, 92, 92, 92, 92,
     92, 92, 92, 92, 92, 92, 92, 92, 92, 92, 92, 92, 92, 92, 92, 92, 92, 92, 92, 92, 92, 92, 92,
     92, 92, 92, 105, 69, 72, 108, 175, 111, 199, 185, 246, 240, 182, 73, 108, 236, 60, 28, 121,
     19, 34, 70, 80, 142, 144, 120, 114, 93, 219, 222, 64, 71, 238, 19] = [5, 202, 230, 255, 6,
     63, 3, 185, 248, 195, 185, 242, 247, 177, 80, 252, 14, 167, 169, 134, 209, 133, 2, 24, 188,
     126, 172, 26, 30, 199, 88, 87]"
  by (simp only: sha256_two_blocks [OF sha_k1_bad_outer_pad length_64 length_64] sha_k1_bad_outer_block1 sha_k1_bad_outer_block2 sha_k1_bad_outer_digest)

lemma hmac_k1_bad_key: "utf8_encode (ustr ''k1'') = [107, 49]"
  by (simp add: ustr_def)

lemma hmac_k1_bad_msg: "utf8_encode (ustr ''YQ=='') = [89, 81, 61, 61]"
  by (simp add: ustr_def)

lemma hmac_k1_bad_ipad: "xor_pad 54 (hmac_key [107, 49]) = [93, 7, 54, 54, 54, 54, 54, 54, 54,
     54, 54, 54, 54, 54, 54, 54, 54, 54, 54, 54, 54, 54, 54, 54, 54, 54, 54, 54, 54, 54, 54, 54,
     54, 54, 54, 54, 54, 54, 54, 54, 54, 54, 54, 54, 54, 54, 54, 54, 54, 54, 54, 54, 54, 54, 54,
     54, 54, 54, 54, 54, 54, 54, 54, 54]"
  by (simp add: xor_pad_def hmac_key_def replicate_num)

lemma hmac_k1_bad_opad: "xor_pad 92 (hmac_key [107, 49]) = [55, 109, 92, 92, 92, 92, 92, 92, 92,
     92, 92, 92, 92, 92, 92, 92, 92, 92, 92, 92, 92, 92, 92, 92, 92, 92, 92, 92, 92, 92, 92, 92,
     92, 92, 92, 92, 92, 92, 92, 92, 92, 92, 92, 92, 92, 92, 92, 92, 92, 92, 92, 92, 92, 92, 92,
     92, 92, 92, 92, 92, 92, 92, 92, 92]"
  by (simp add: xor_pad_def hmac_key_def replicate_num)

lemma hmac_k1_bad_bytes: "hmac_sha256 [107, 49] [89, 81, 61, 61] = [5, 202, 230, 255, 6, 63, 3,
     185, 248, 195, 185, 242, 247, 177, 80, 252, 14, 167, 169, 134, 209, 133, 2, 24, 188, 126,
     172, 26, 30, 199, 88, 87]"
  by (simp add: hmac_sha256_def hmac_k1_bad_ipad hmac_k1_bad_opad sha_k1_bad_inner sha_k1_bad_outer)

lemma hmac_k1_bad_base64: "base64_encode [5, 202, 230, 255, 6, 63, 3, 185, 248, 195, 185, 242,
     247, 177, 80, 252, 14, 167, 169, 134, 209, 133, 2, 24, 188, 126, 172, 26, 30, 199, 88, 87]
     = ustr ''Bcrm/wY/A7n4w7ny97FQ/A6nqYbRhQIYvH6sGh7HWFc=''"
  by (simp add: ustr_def b64_char_def)

lemma hmac_k1_bad: "createHmac_digest (ustr ''k1'') (ustr ''YQ=='') = ustr
     ''Bcrm/wY/A7n4w7ny97FQ/A6nqYbRhQIYvH6sGh7HWFc=''"
  by (simp only: createHmac_digest_def hmac_k1_bad_key hmac_k1_bad_msg hmac_k1_bad_bytes hmac_k1_bad_base64)

subsection \<open>The tokens of the printed text\<close>

lemma tokenize_punctuation:
  "tokenize (91 # x) = cons_token TLBracket (tokenize x)"
  "tokenize (93 # x) = cons_token TRBracket (tokenize x)"
  "tokenize (123 # x) = cons_token TLBrace (tokenize x)"
  "tokenize (125 # x) = cons_token TRBrace (tokenize x)"
  "tokenize (58 # x) = cons_token TColon (tokenize x)"
  "tokenize (44 # x) = cons_token TComma (tokenize x)"
  by (simp_all add: is_ws_def)

lemma tokenize_words:
  "tokenize (ustr ''null'' @ x) = cons_token TNull (tokenize x)"
  "tokenize (ustr ''true'' @ x) = cons_token TTrue (tokenize x)"
  "tokenize (ustr ''false'' @ x) = cons_token TFalse (tokenize x)"
  by (simp_all add: ustr_def is_ws_def is_digit_def)

lemma tokenize_quote: "tokenize (quote k @ x) = cons_token (TString k) (tokenize x)"
  by (simp add: quote_def is_ws_def lex_string_quote_chars)

lemma number_end_punctuation: "number_end (93 # x)" "number_end (125 # x)" "number_end (44 # x)"
  by (simp_all add: number_end_def is_digit_def)

lemma tokenize_stringify:
  "serializable v \<Longrightarrow> number_end r \<Longrightarrow> tokenize r = Some ts \<Longrightarrow>
     tokenize (JSON_stringify v @ r) = Some (lexemes v @ ts)"
  and tokenize_stringify_elements:
  "serializable_elements vs \<Longrightarrow> number_end r \<Longrightarrow> tokenize r = Some ts \<Longrightarrow>
     tokenize (stringify_elements vs @ r) = Some (lexemes_elements vs @ ts)"
  and tokenize_stringify_members:
  "serializable_members ms \<Longrightarrow> number_end r \<Longrightarrow> tokenize r = Some ts \<Longrightarrow>
     tokenize (stringify_members ms @ r) = Some (lexemes_members ms @ ts)"
proof (induction v and vs and ms arbitrary: r ts and r ts and r ts
    rule: JSON_stringify_stringify_elements_stringify_members.induct)
  case 1
  then show ?case by (simp add: tokenize_words del: tokenize.simps)
next
  case (2 b)
  then show ?case by (cases b) (simp_all add: tokenize_words del: tokenize.simps)
next
  case (3 t)
  then show ?case by (simp add: tokenize_number del: tokenize.simps)
next
  case (4 s)
  then show ?case by (simp add: tokenize_quote del: tokenize.simps)
next
  case (5 vs)
  have "tokenize (93 # r) = Some (TRBracket # ts)"
    using "5.prems"(3) by (simp add: tokenize_punctuation del: tokenize.simps)
  from "5.IH" [OF _ number_end_punctuation(1) this] "5.prems"(1) show ?case
    by (simp add: tokenize_punctuation del: tokenize.simps)
next
  case (6 ms)
  have "tokenize (125 # r) = Some (TRBrace # ts)"
    using "6.prems"(3) by (simp add: tokenize_punctuation del: tokenize.simps)
  from "6.IH" [OF _ number_end_punctuation(2) this] "6.prems"(1) show ?case
    by (simp add: tokenize_punctuation del: tokenize.simps)
next
  case 7
  then show ?case by simp
next
  case (8 v)
  then show ?case by simp
next
  case (9 v w vs)
  from "9.prems"(1) have s: "serializable v" "serializable_elements (w # vs)"
    by simp_all
  from "9.IH"(2) [OF s(2) "9.prems"(2,3)]
  have "tokenize (44 # stringify_elements (w # vs) @ r) = Some (TComma # lexemes_elements (w # vs) @ ts)"
    by (simp add: tokenize_punctuation del: tokenize.simps)
  from "9.IH"(1) [OF s(1) number_end_punctuation(3) this] show ?case
    by simp
next
  case 10
  then show ?case by simp
next
  case (11 k v)
  from "11.prems"(1) have s: "serializable v" by simp
  from "11.IH" [OF s "11.prems"(2,3)] show ?case
    by (simp add: tokenize_quote tokenize_punctuation del: tokenize.simps)
next
  case (12 k v m ms)
  from "12.prems"(1) have s: "serializable v" "serializable_members (m # ms)"
    by simp_all
  from "12.IH"(2) [OF s(2) "12.prems"(2,3)]
  have "tokenize (44 # stringify_members (m # ms) @ r) = Some (TComma # lexemes_members (m # ms) @ ts)"
    by (simp add: tokenize_punctuation del: tokenize.simps)
  from "12.IH"(1) [OF s(1) number_end_punctuation(3) this] show ?case
    by (simp add: tokenize_quote tokenize_punctuation del: tokenize.simps)
qed

lemma JSON_parse_stringify: "serializable v \<Longrightarrow> JSON_parse (JSON_stringify v) = Some v"
  using tokenize_stringify [of v "[]" "[]"]
  by (simp add: JSON_parse_def number_end_def parse_tokens_lexemes)

subsection \<open>The printed text is well-formed UTF-16\<close>

lemma ascii_not_surrogate: "ascii c \<Longrightarrow> \<not> is_high c \<and> \<not> is_low c"
  by (simp add: ascii_def is_high_def is_low_def)

lemma well_formed_ascii_Cons: "ascii c \<Longrightarrow> well_formed (c # s) = well_formed s"
  by (simp add: ascii_not_surrogate)

lemma well_formed_ascii: "list_all ascii s \<Longrightarrow> well_formed s"
  by (induction s) (simp_all add: ascii_not_surrogate)

lemma well_formed_append: "well_formed a \<Longrightarrow> well_formed b \<Longrightarrow> well_formed (a @ b)"
proof (induction a rule: well_formed.induct)
  case 1
  then show ?case by simp
next
  case (2 c cs)
  show ?case
  proof (cases "is_high c")
    case True
    with "2.prems"(1) obtain d ds where cs: "cs = d # ds" and d: "is_low d" "well_formed ds"
      by (cases cs) auto
    from "2.IH"(1) [OF True cs d(2) "2.prems"(2)] True d(1) show ?thesis
      by (simp add: cs)
  next
    case False
    with "2.prems"(1) have "\<not> is_low c" "well_formed cs" by simp_all
    with "2.IH"(2) [OF False _ "2.prems"(2)] False show ?thesis
      by simp
  qed
qed

lemma ascii_numeral: "ascii 8" "ascii 9" "ascii 10" "ascii 12" "ascii 13" "ascii 34" "ascii 43"
  "ascii 44" "ascii 45" "ascii 46" "ascii 48" "ascii 58" "ascii 69" "ascii 91" "ascii 92"
  "ascii 93" "ascii 98" "ascii 101" "ascii 102" "ascii 110" "ascii 114" "ascii 116" "ascii 117"
  "ascii 123" "ascii 125"
  by (simp_all add: ascii_def)

lemma ascii_hex_digit: "v < 16 \<Longrightarrow> ascii (hex_digit v)"
  by (simp add: ascii_def unat_hex_digit)

lemma ascii_unicode_escape: "list_all ascii (unicode_escape c)"
proof -
  have "unat c div 4096 < 16"
    using unat_uchar_less [of c] by simp
  then show ?thesis
    by (simp add: unicode_escape_def ascii_hex_digit ascii_numeral)
qed

lemma well_formed_unicode_escape:
  "well_formed s \<Longrightarrow> well_formed (unicode_escape c @ s)"
  by (rule well_formed_append [OF well_formed_ascii [OF ascii_unicode_escape]])

lemma well_formed_quote_chars: "well_formed (quote_chars s)"
proof (induction s rule: length_induct)
  case (1 s)
  show ?case
  proof (cases s)
    case Nil
    then show ?thesis by simp
  next
    case (Cons c cs)
    have ih: "well_formed (quote_chars cs)"
      using "1.IH" Cons by simp
    note esc = well_formed_unicode_escape [OF ih, of c]
    consider (two) "c = 8 \<or> c = 9 \<or> c = 10 \<or> c = 12 \<or> c = 13 \<or> c = 34 \<or> c = 92"
      | (ctl) "c \<noteq> 8" "c \<noteq> 9" "c \<noteq> 10" "c \<noteq> 12" "c \<noteq> 13" "c \<noteq> 34" "c \<noteq> 92" "unat c < 32"
      | (high) "is_high c"
      | (low) "\<not> is_high c" "is_low c"
      | (plain) "c \<noteq> 8" "c \<noteq> 9" "c \<noteq> 10" "c \<noteq> 12" "c \<noteq> 13" "c \<noteq> 34" "c \<noteq> 92"
          "\<not> unat c < 32" "\<not> is_high c" "\<not> is_low c"
      by blast
    then show ?thesis
    proof cases
      case two
      then show ?thesis
        unfolding Cons using ih
        by (elim disjE) (simp_all add: well_formed_ascii_Cons ascii_numeral del: well_formed.simps)
    next
      case ctl
      then have "quote_chars (c # cs) = unicode_escape c @ quote_chars cs"
        by simp
      with esc show ?thesis by (simp only: Cons)
    next
      case high
      note p = surrogate_plain [OF disjI1 [OF high]]
      show ?thesis
      proof (cases cs)
        case Nil
        have "quote_chars (c # cs) = unicode_escape c @ quote_chars cs"
          using p high by (simp add: Nil)
        with esc show ?thesis by (simp only: \<open>s = c # cs\<close>)
      next
        case (Cons d ds)
        show ?thesis
        proof (cases "is_low d")
          case True
          have ihd: "well_formed (quote_chars ds)"
            using "1.IH" \<open>s = c # cs\<close> Cons by simp
          have "quote_chars (c # cs) = c # d # quote_chars ds"
            using p high True by (simp add: Cons)
          with ihd high True show ?thesis
            by (simp add: \<open>s = c # cs\<close>)
        next
          case False
          have "quote_chars (c # cs) = unicode_escape c @ quote_chars cs"
            using p high False by (simp add: Cons)
          with esc show ?thesis by (simp only: \<open>s = c # cs\<close>)
        qed
      qed
    next
      case low
      note p = surrogate_plain [OF disjI2 [OF low(2)]]
      have "quote_chars (c # cs) = unicode_escape c @ quote_chars cs"
        using p low by simp
      with esc show ?thesis by (simp only: Cons)
    next
      case plain
      then have "quote_chars (c # cs) = c # quote_chars cs"
        by simp
      with ih plain(9,10) show ?thesis
        by (simp add: Cons)
    qed
  qed
qed

lemma well_formed_quote: "well_formed (quote s)"
proof -
  have "well_formed (quote_chars s @ [34])"
    by (rule well_formed_append [OF well_formed_quote_chars]) (simp add: is_high_def is_low_def)
  then show ?thesis
    by (simp add: quote_def well_formed_ascii_Cons ascii_numeral del: well_formed.simps)
qed

lemma ascii_digit: "is_digit c \<Longrightarrow> ascii c"
  by (simp add: is_digit_def ascii_def)

lemma ascii_takeWhile_digit: "list_all ascii (takeWhile is_digit s)"
  by (induction s) (simp_all add: ascii_digit)

lemma lex_digits_ascii: "lex_digits s = Some (t, r) \<Longrightarrow> list_all ascii t"
  by (auto simp: lex_digits_def ascii_takeWhile_digit split: if_splits)

lemma lex_number_ascii:
  assumes "lex_number t = Some (t', r)"
  shows "list_all ascii t'"
proof -
  obtain sg s1 where sg: "lex_sign t = (sg, s1)" by (cases "lex_sign t")
  from assms sg obtain ip s2 where ip: "lex_int s1 = Some (ip, s2)"
    by (auto simp: lex_number_def split: option.splits)
  from assms sg ip obtain fp s3 where fp: "lex_frac s2 = Some (fp, s3)"
    by (auto simp: lex_number_def split: option.splits)
  from assms sg ip fp obtain ep where ep: "lex_exp s3 = Some (ep, r)"
    and t: "t' = sg @ ip @ fp @ ep"
    by (auto simp: lex_number_def split: option.splits)
  have 1: "list_all ascii sg"
    using sg by (auto simp: lex_sign_def ascii_numeral split: list.splits if_splits)
  have 2: "list_all ascii ip"
    using ip by (auto simp: lex_int_def ascii_numeral split: list.splits if_splits dest: lex_digits_ascii)
  have 3: "list_all ascii fp"
    using fp by (auto simp: lex_frac_def ascii_numeral split: list.splits if_splits dest: lex_digits_ascii)
  have 4: "list_all ascii ep"
    using ep by (auto simp: lex_exp_def ascii_numeral split: list.splits if_splits dest: lex_digits_ascii)
  from 1 2 3 4 show ?thesis by (simp add: t)
qed

lemma well_formed_words:
  "well_formed (ustr ''null'')" "well_formed (ustr ''true'')" "well_formed (ustr ''false'')"
  by (simp_all add: ustr_def is_high_def is_low_def)

lemma well_formed_stringify:
  "serializable v \<Longrightarrow> well_formed (JSON_stringify v)"
  and well_formed_stringify_elements:
  "serializable_elements vs \<Longrightarrow> well_formed (stringify_elements vs)"
  and well_formed_stringify_members:
  "serializable_members ms \<Longrightarrow> well_formed (stringify_members ms)"
proof (induction v and vs and ms rule: JSON_stringify_stringify_elements_stringify_members.induct)
  case 1
  show ?case by (simp add: well_formed_words del: well_formed.simps)
next
  case (2 b)
  show ?case by (cases b) (simp_all add: well_formed_words del: well_formed.simps)
next
  case (3 t)
  then show ?case by (auto intro: well_formed_ascii lex_number_ascii)
next
  case (4 s)
  show ?case by (simp add: well_formed_quote del: well_formed.simps)
next
  case (5 vs)
  then have "well_formed (stringify_elements vs)"
    by simp
  then have "well_formed (stringify_elements vs @ [93])"
    by (rule well_formed_append) (simp add: is_high_def is_low_def)
  then show ?case
    by (simp add: well_formed_ascii_Cons ascii_numeral del: well_formed.simps)
next
  case (6 ms)
  then have "well_formed (stringify_members ms)"
    by simp
  then have "well_formed (stringify_members ms @ [125])"
    by (rule well_formed_append) (simp add: is_high_def is_low_def)
  then show ?case
    by (simp add: well_formed_ascii_Cons ascii_numeral del: well_formed.simps)
next
  case 7
  show ?case by simp
next
  case (8 v)
  then show ?case by simp
next
  case (9 v w vs)
  then have "well_formed (JSON_stringify v)" "well_formed (44 # stringify_elements (w # vs))"
    by (simp_all add: well_formed_ascii_Cons ascii_numeral del: well_formed.simps)
  then show ?case
    by (simp add: well_formed_append del: well_formed.simps)
next
  case 10
  show ?case by simp
next
  case (11 k v)
  then have "well_formed (58 # JSON_stringify v)"
    by (simp add: well_formed_ascii_Cons ascii_numeral del: well_formed.simps)
  then show ?case
    by (simp add: well_formed_append well_formed_quote del: well_formed.simps)
next
  case (12 k v m ms)
  then have "well_formed (JSON_stringify v)" "well_formed (44 # stringify_members (m # ms))"
    by (simp_all add: well_formed_ascii_Cons ascii_numeral del: well_formed.simps)
  then have "well_formed (58 # JSON_stringify v @ 44 # stringify_members (m # ms))"
    using well_formed_append [of "JSON_stringify v" "44 # stringify_members (m # ms)"]
    by (simp add: well_formed_ascii_Cons ascii_numeral del: well_formed.simps)
  then show ?case
    by (simp add: well_formed_append well_formed_quote del: well_formed.simps)
qed

subsection \<open>The worked example\<close>

lemma ustr_append: "ustr (a @ b) = ustr a @ ustr b"
  by (simp add: ustr_def)

lemma ustr_dot: "ustr (CHR ''.'' # b) = 46 # ustr b"
  by (simp add: ustr_def)

lemma example_encodedPayload:
  "encodedPayload_of (ustr ''u1'') (JObject [(ustr ''role'', JString (ustr ''admin''))])
     = ustr ''eyJ1c2VyIjoidTEiLCJkYXRhIjp7InJvbGUiOiJhZG1pbiJ9fQ==''"
  by (simp add: encodedPayload_of_def ustr_def quote_def is_high_def is_low_def b64_char_def)

lemma example_text:
  "utf8_decode (base64_decode (ustr ''eyJ1c2VyIjoidTEiLCJkYXRhIjp7InJvbGUiOiJhZG1pbiJ9fQ==''))
     = ustr ''{\"user\":\"u1\",\"data\":{\"role\":\"admin\"}}''"
  by (simp add: ustr_def base64_decode_def b64_value_def low_byte_def)

lemma example_parse:
  "JSON_parse (ustr ''{\"user\":\"u1\",\"data\":{\"role\":\"admin\"}}'')
     = Some (JObject [(ustr ''user'', JString (ustr ''u1'')),
                      (ustr ''data'', JObject [(ustr ''role'', JString (ustr ''admin''))])])"
  by (simp add: ustr_def JSON_parse_def parse_tokens_def is_ws_def is_digit_def)

lemma example_token:
  "token (encodeToken (ustr ''u1'') (JObject [(ustr ''role'', JString (ustr ''admin''))]) (ustr ''k1''))
     = ustr ''eyJ1c2VyIjoidTEiLCJkYXRhIjp7InJvbGUiOiJhZG1pbiJ9fQ==.ZC4DYcC46FhgP1d64V2JvdSqHmyLHEDTShSBd+v8g+0=''"
proof -
  have "ustr ''eyJ1c2VyIjoidTEiLCJkYXRhIjp7InJvbGUiOiJhZG1pbiJ9fQ==.ZC4DYcC46FhgP1d64V2JvdSqHmyLHEDTShSBd+v8g+0=''
      = ustr ''eyJ1c2VyIjoidTEiLCJkYXRhIjp7InJvbGUiOiJhZG1pbiJ9fQ=='' @ 46 #
        ustr ''ZC4DYcC46FhgP1d64V2JvdSqHmyLHEDTShSBd+v8g+0=''"
    by (simp add: ustr_def)
  then show ?thesis
    by (simp only: token_encodeToken example_encodedPayload hmac_k1)
qed

lemma example_digests_differ:
  "createHmac_digest (ustr ''k2'') (ustr ''eyJ1c2VyIjoidTEiLCJkYXRhIjp7InJvbGUiOiJhZG1pbiJ9fQ=='')
     \<noteq> createHmac_digest (ustr ''k1'') (ustr ''eyJ1c2VyIjoidTEiLCJkYXRhIjp7InJvbGUiOiJhZG1pbiJ9fQ=='')"
  unfolding hmac_k1 hmac_k2 by (simp add: ustr_def)

lemma example_object_text:
  "utf8_decode (base64_decode (ustr ''e30='')) = ustr ''{}''"
  by (simp add: ustr_def base64_decode_def b64_value_def low_byte_def)

lemma example_object_parse: "JSON_parse (ustr ''{}'') = Some (JObject [])"
  by (simp add: ustr_def JSON_parse_def parse_tokens_def is_ws_def is_digit_def)

lemma example_bad_text:
  "utf8_decode (base64_decode (ustr ''YQ=='')) = ustr ''a''"
  by (simp add: ustr_def base64_decode_def b64_value_def low_byte_def)

lemma example_bad_parse: "JSON_parse (ustr ''a'') = None"
  by (simp add: ustr_def JSON_parse_def parse_tokens_def is_ws_def is_digit_def)

section \<open>Claims about the user collection\<close>

text \<open>
  Claim C8, as stated: \<open>upsertUserById\<close> (\<open>updateUser\<close> in the source) replaces the full
  document matching the record's id with exactly the four fields, so that no other field
  stored on that document survives. This fails: with a stored document that also has
  the fields \<open>_id\<close> and \<open>role\<close>, the document after the call still has both, because
  \<open>$set\<close> assigns the listed fields and leaves the others alone.
\<close>

theorem updateUser_full_replacement_counterexample:
  "docs (snd (updateUser True
      \<lparr>id' = ustr ''u1'', email = ustr ''new@x.org'', firstname = ustr ''Ann'', lastname = ustr ''Lee''\<rparr>
      \<lparr>docs = [[(''_id'', BObjectId 0), (''id'', BString (ustr ''u1'')),
                (''email'', BString (ustr ''old@x.org'')), (''firstname'', BString (ustr ''A'')),
                (''lastname'', BString (ustr ''L'')), (''role'', BString (ustr ''admin''))]],
        next_oid = 1\<rparr>))
   = [[(''_id'', BObjectId 0), (''id'', BString (ustr ''u1'')),
       (''email'', BString (ustr ''new@x.org'')), (''firstname'', BString (ustr ''Ann'')),
       (''lastname'', BString (ustr ''Lee'')), (''role'', BString (ustr ''admin''))]]"
  by (simp add: updateUser_def updateOne_def updateFilter_def matches_id_def)

text \<open>
  Claim C8, amended: when the driver call goes through, \<open>updateUser\<close> succeeds; it sets
  the four fields \<open>id\<close>, \<open>email\<close>, \<open>firstname\<close> and \<open>lastname\<close> on the first document
  whose \<open>id\<close> equals the record's and keeps every other field of that document; when no
  document matches, it appends one new document holding a fresh \<open>_id\<close> and the four
  fields. All other documents stay as they were, in their places.
\<close>

theorem updateUser_sets_fields:
  "fst (updateUser True r c) = Inr () \<and>
   (docs c = pre @ d # post \<and> list_all (\<lambda>x. \<not> matches_id (id' r) x) pre \<and> matches_id (id' r) d
      \<longrightarrow> (\<exists>d'. docs (snd (updateUser True r c)) = pre @ d' # post \<and>
            map_of d' = (map_of d)(''id'' \<mapsto> BString (id' r), ''email'' \<mapsto> BString (email r),
              ''firstname'' \<mapsto> BString (firstname r), ''lastname'' \<mapsto> BString (lastname r)))) \<and>
   (list_all (\<lambda>x. \<not> matches_id (id' r) x) (docs c)
      \<longrightarrow> (\<exists>d'. docs (snd (updateUser True r c)) = docs c @ [d'] \<and>
            map_of d' = [''_id'' \<mapsto> BObjectId (next_oid c), ''id'' \<mapsto> BString (id' r),
              ''email'' \<mapsto> BString (email r), ''firstname'' \<mapsto> BString (firstname r),
              ''lastname'' \<mapsto> BString (lastname r)]))"
proof (intro conjI impI)
  show "fst (updateUser True r c) = Inr ()"
    by (rule updateUser_online_ok)
next
  assume "docs c = pre @ d # post \<and> list_all (\<lambda>x. \<not> matches_id (id' r) x) pre \<and> matches_id (id' r) d"
  then have "docs (snd (updateUser True r c)) = pre @ apply_set (updateFilter r) d # post"
    by (simp add: updateUser_hit)
  then show "\<exists>d'. docs (snd (updateUser True r c)) = pre @ d' # post \<and>
      map_of d' = (map_of d)(''id'' \<mapsto> BString (id' r), ''email'' \<mapsto> BString (email r),
        ''firstname'' \<mapsto> BString (firstname r), ''lastname'' \<mapsto> BString (lastname r))"
    using map_of_updateFilter [of r d] by blast
next
  assume "list_all (\<lambda>x. \<not> matches_id (id' r) x) (docs c)"
  then have "docs (snd (updateUser True r c)) = docs c @
      [apply_set (updateFilter r) [(''_id'', BObjectId (next_oid c)), (''id'', BString (id' r))]]"
    by (simp add: updateUser_miss)
  moreover have "map_of (apply_set (updateFilter r) [(''_id'', BObjectId (next_oid c)), (''id'', BString (id' r))])
      = [''_id'' \<mapsto> BObjectId (next_oid c), ''id'' \<mapsto> BString (id' r),
         ''email'' \<mapsto> BString (email r), ''firstname'' \<mapsto> BString (firstname r),
         ''lastname'' \<mapsto> BString (lastname r)]"
    by (auto simp: map_of_updateFilter fun_eq_iff)
  ultimately show "\<exists>d'. docs (snd (updateUser True r c)) = docs c @ [d'] \<and>
      map_of d' = [''_id'' \<mapsto> BObjectId (next_oid c), ''id'' \<mapsto> BString (id' r),
        ''email'' \<mapsto> BString (email r), ''firstname'' \<mapsto> BString (firstname r),
        ''lastname'' \<mapsto> BString (lastname r)]"
    by blast
qed

theorem updateUser_sets_fields_witness:
  "(\<exists>d'. docs (snd (updateUser True
        \<lparr>id' = ustr ''u1'', email = ustr ''e'', firstname = ustr ''f'', lastname = ustr ''l''\<rparr>
        \<lparr>docs = [[(''id'', BString (ustr ''u1'')), (''role'', BString (ustr ''admin''))]], next_oid = 0\<rparr>))
        = [] @ d' # [] \<and>
      map_of d' = [''id'' \<mapsto> BString (ustr ''u1''), ''role'' \<mapsto> BString (ustr ''admin''),
        ''email'' \<mapsto> BString (ustr ''e''), ''firstname'' \<mapsto> BString (ustr ''f''),
        ''lastname'' \<mapsto> BString (ustr ''l'')]) \<and>
   (\<exists>d'. docs (snd (updateUser True
        \<lparr>id' = ustr ''u1'', email = ustr ''e'', firstname = ustr ''f'', lastname = ustr ''l''\<rparr>
        \<lparr>docs = [], next_oid = 7\<rparr>)) = [] @ [d'] \<and>
      map_of d' = [''_id'' \<mapsto> BObjectId 7, ''id'' \<mapsto> BString (ustr ''u1''),
        ''email'' \<mapsto> BString (ustr ''e''), ''firstname'' \<mapsto> BString (ustr ''f''),
        ''lastname'' \<mapsto> BString (ustr ''l'')])"
proof -
  let ?r = "\<lparr>id' = ustr ''u1'', email = ustr ''e'', firstname = ustr ''f'', lastname = ustr ''l''\<rparr>"
  let ?d = "[(''id'', BString (ustr ''u1'')), (''role'', BString (ustr ''admin''))]"
  have a: "\<exists>d'. docs (snd (updateUser True ?r \<lparr>docs = [?d], next_oid = 0\<rparr>)) = [] @ d' # [] \<and>
      map_of d' = [''id'' \<mapsto> BString (ustr ''u1''), ''role'' \<mapsto> BString (ustr ''admin''),
        ''email'' \<mapsto> BString (ustr ''e''), ''firstname'' \<mapsto> BString (ustr ''f''),
        ''lastname'' \<mapsto> BString (ustr ''l'')]"
    using updateUser_sets_fields [of ?r "\<lparr>docs = [?d], next_oid = 0\<rparr>" "[]" ?d "[]"]
    by (simp add: matches_id_def fun_upd_twist)
  have b: "\<exists>d'. docs (snd (updateUser True ?r \<lparr>docs = [], next_oid = 7\<rparr>)) = [] @ [d'] \<and>
      map_of d' = [''_id'' \<mapsto> BObjectId 7, ''id'' \<mapsto> BString (ustr ''u1''),
        ''email'' \<mapsto> BString (ustr ''e''), ''firstname'' \<mapsto> BString (ustr ''f''),
        ''lastname'' \<mapsto> BString (ustr ''l'')]"
    using updateUser_sets_fields [of ?r "\<lparr>docs = [], next_oid = 7\<rparr>" "[]" "[]" "[]"]
    by simp
  from a b show ?thesis by blast
qed

text \<open>
  Claim C9: after a successful \<open>upsertUserById(record)\<close> (\<open>updateUser\<close>), a fetch of the
  record's id that reaches the store (\<open>getUser\<close>) succeeds and returns a document whose
  \<open>id\<close>, \<open>email\<close>, \<open>firstname\<close> and \<open>lastname\<close> are the ones passed in; and in a
  collection built from the empty one by \<open>updateUser\<close> calls alone, a fetch of an
  identifier that none of the calls carried fails with \<open>UserNotFound\<close>.
\<close>

theorem upsert_then_fetch:
  "(updateUser online r c = (Inr (), c') \<longrightarrow>
      (\<exists>d. getUser True (id' r) c' = Inr d \<and>
        map_of d ''id'' = Some (BString (id' r)) \<and> map_of d ''email'' = Some (BString (email r)) \<and>
        map_of d ''firstname'' = Some (BString (firstname r)) \<and>
        map_of d ''lastname'' = Some (BString (lastname r)))) \<and>
   (list_all (\<lambda>call. id' (snd call) \<noteq> userId) calls \<longrightarrow>
      getUser True userId (upserts calls empty_collection) = Inl UserNotFound)"
proof (intro conjI impI)
  assume ok: "updateUser online r c = (Inr (), c')"
  then have "online" by (rule updateUser_ok_online)
  with ok have c': "c' = snd (updateUser True r c)" by simp
  obtain d where d: "getUser True (id' r) (snd (updateUser True r c)) = Inr d"
    using getUser_after_updateUser_ex by blast
  from getUser_after_updateUser [OF d] d
  show "\<exists>d. getUser True (id' r) c' = Inr d \<and>
        map_of d ''id'' = Some (BString (id' r)) \<and> map_of d ''email'' = Some (BString (email r)) \<and>
        map_of d ''firstname'' = Some (BString (firstname r)) \<and>
        map_of d ''lastname'' = Some (BString (lastname r))"
    unfolding c' by blast
next
  assume "list_all (\<lambda>call. id' (snd call) \<noteq> userId) calls"
  then show "getUser True userId (upserts calls empty_collection) = Inl UserNotFound"
    by (rule getUser_never_upserted)
qed

theorem upsert_then_fetch_witness:
  "(\<exists>d. getUser True (ustr ''u1'')
        \<lparr>docs = [[(''_id'', BObjectId 0), (''id'', BString (ustr ''u1'')), (''email'', BString (ustr ''e'')),
                  (''firstname'', BString (ustr ''f'')), (''lastname'', BString (ustr ''l''))]],
         next_oid = 1\<rparr> = Inr d \<and>
      map_of d ''id'' = Some (BString (ustr ''u1'')) \<and> map_of d ''email'' = Some (BString (ustr ''e'')) \<and>
      map_of d ''firstname'' = Some (BString (ustr ''f'')) \<and>
      map_of d ''lastname'' = Some (BString (ustr ''l''))) \<and>
   getUser True (ustr ''u2'')
     (upserts [(True, \<lparr>id' = ustr ''u1'', email = ustr ''e'', firstname = ustr ''f'', lastname = ustr ''l''\<rparr>)]
        empty_collection) = Inl UserNotFound"
proof -
  let ?r = "\<lparr>id' = ustr ''u1'', email = ustr ''e'', firstname = ustr ''f'', lastname = ustr ''l''\<rparr>"
  let ?c' = "\<lparr>docs = [[(''_id'', BObjectId 0), (''id'', BString (ustr ''u1'')), (''email'', BString (ustr ''e'')),
                  (''firstname'', BString (ustr ''f'')), (''lastname'', BString (ustr ''l''))]],
         next_oid = 1\<rparr>"
  have up: "updateUser True ?r empty_collection = (Inr (), ?c')"
    by (simp add: updateUser_def updateOne_def updateFilter_def empty_collection_def)
  have ne: "list_all (\<lambda>call. id' (snd call) \<noteq> ustr ''u2'') [(True, ?r)]"
    by (simp add: ustr_def)
  from upsert_then_fetch [of True ?r empty_collection ?c' "ustr ''u2''" "[(True, ?r)]"] up ne
  show ?thesis by simp
qed

section \<open>Claims about the token codec\<close>

text \<open>
  The spec's \<open>MalformedToken\<close> is the source's \<open>Error("Invalid token format")\<close>, its
  \<open>InvalidSignature\<close> the source's \<open>Error("Invalid token")\<close>, and its subject the
  source's \<open>user\<close>.
\<close>

text \<open>
  Claim C5: a token with no \<open>.\<close> in it, or with nothing before its first \<open>.\<close>, or with
  nothing after its first \<open>.\<close>, makes \<open>decodeToken\<close> fail with \<open>MalformedToken\<close>, that is
  with \<open>Error("Invalid token format")\<close> and nothing else, whatever the key.
\<close>

theorem decodeToken_malformed:
  assumes "46 \<notin> set tok \<or> (\<exists>a b. tok = a @ 46 # b \<and> 46 \<notin> set a \<and> (a = [] \<or> b = []))"
  shows "decodeToken tok k = Inl (Error ''Invalid token format'')"
proof -
  from assms consider (none) "46 \<notin> set tok" | (left) b where "tok = 46 # b"
    | (right) a where "tok = a @ [46]" "46 \<notin> set a"
    by auto
  then show ?thesis
  proof cases
    case none
    then show ?thesis by (rule decodeToken_no_dot)
  next
    case left
    then show ?thesis by (simp add: decodeToken_def split: list.splits)
  next
    case right
    then show ?thesis by (simp add: decodeToken_def split_str_first)
  qed
qed

theorem decodeToken_malformed_witness:
  "decodeToken (ustr ''abc'') (ustr ''k1'') = Inl (Error ''Invalid token format'') \<and>
   decodeToken (ustr ''.abc'') (ustr ''k1'') = Inl (Error ''Invalid token format'') \<and>
   decodeToken (ustr ''abc.'') (ustr ''k1'') = Inl (Error ''Invalid token format'')"
proof (intro conjI)
  show "decodeToken (ustr ''abc'') (ustr ''k1'') = Inl (Error ''Invalid token format'')"
    by (rule decodeToken_malformed) (simp add: ustr_def)
  have "ustr ''.abc'' = [] @ 46 # ustr ''abc'' \<and> 46 \<notin> set ([] :: ustring) \<and>
      (([] :: ustring) = [] \<or> ustr ''abc'' = [])"
    by (simp add: ustr_def)
  then show "decodeToken (ustr ''.abc'') (ustr ''k1'') = Inl (Error ''Invalid token format'')"
    by (intro decodeToken_malformed disjI2 exI)
  have "ustr ''abc.'' = ustr ''abc'' @ 46 # [] \<and> 46 \<notin> set (ustr ''abc'') \<and>
      (ustr ''abc'' = [] \<or> ([] :: ustring) = [])"
    by (simp add: ustr_def)
  then show "decodeToken (ustr ''abc.'') (ustr ''k1'') = Inl (Error ''Invalid token format'')"
    by (intro decodeToken_malformed disjI2 exI)
qed

text \<open>
  Claim C3, as stated: the signature that \<open>decodeToken\<close> compares is everything after the
  first \<open>.\<close>, later dots included. This fails: \<open>split(".")\<close> cuts at every dot and the code
  takes the first two pieces only. The valid token of the worked example with \<open>.x\<close>
  appended still decodes to the payload, although everything after its first dot,
  \<open>ZC4D...g+0=.x\<close>, is not the expected signature.
\<close>

theorem decodeToken_later_dots_counterexample:
  "decodeToken
     (ustr ''eyJ1c2VyIjoidTEiLCJkYXRhIjp7InJvbGUiOiJhZG1pbiJ9fQ==.ZC4DYcC46FhgP1d64V2JvdSqHmyLHEDTShSBd+v8g+0=.x'')
     (ustr ''k1'')
   = Inr (JObject [(ustr ''user'', JString (ustr ''u1'')),
                   (ustr ''data'', JObject [(ustr ''role'', JString (ustr ''admin''))])]) \<and>
   ustr ''ZC4DYcC46FhgP1d64V2JvdSqHmyLHEDTShSBd+v8g+0=.x''
     \<noteq> createHmac_digest (ustr ''k1'') (ustr ''eyJ1c2VyIjoidTEiLCJkYXRhIjp7InJvbGUiOiJhZG1pbiJ9fQ=='')"
proof
  let ?p = "ustr ''eyJ1c2VyIjoidTEiLCJkYXRhIjp7InJvbGUiOiJhZG1pbiJ9fQ==''"
  let ?s = "ustr ''ZC4DYcC46FhgP1d64V2JvdSqHmyLHEDTShSBd+v8g+0=''"
  have t: "ustr ''eyJ1c2VyIjoidTEiLCJkYXRhIjp7InJvbGUiOiJhZG1pbiJ9fQ==.ZC4DYcC46FhgP1d64V2JvdSqHmyLHEDTShSBd+v8g+0=.x''
      = ?p @ 46 # ?s @ ustr ''.x''"
    by (simp add: ustr_def)
  have d: "46 \<notin> set ?p" "46 \<notin> set ?s" "ustr ''.x'' = [] \<or> hd (ustr ''.x'') = 46"
    by (simp_all add: ustr_def)
  have n: "?p \<noteq> []" "?s \<noteq> []"
    by (simp_all add: ustr_def)
  show "decodeToken
     (ustr ''eyJ1c2VyIjoidTEiLCJkYXRhIjp7InJvbGUiOiJhZG1pbiJ9fQ==.ZC4DYcC46FhgP1d64V2JvdSqHmyLHEDTShSBd+v8g+0=.x'')
     (ustr ''k1'')
   = Inr (JObject [(ustr ''user'', JString (ustr ''u1'')),
                   (ustr ''data'', JObject [(ustr ''role'', JString (ustr ''admin''))])])"
    unfolding t decodeToken_pieces [OF d] hmac_k1 example_text example_parse
    using n by simp
  show "ustr ''ZC4DYcC46FhgP1d64V2JvdSqHmyLHEDTShSBd+v8g+0=.x''
     \<noteq> createHmac_digest (ustr ''k1'') (ustr ''eyJ1c2VyIjoidTEiLCJkYXRhIjp7InJvbGUiOiJhZG1pbiJ9fQ=='')"
    unfolding hmac_k1 by (simp add: ustr_def)
qed

text \<open>
  Claim C3, amended: the first segment is everything before the first \<open>.\<close>; the signature
  that is compared is what stands between the first \<open>.\<close> and the next one (or the end of
  the token when there is no other), and whatever follows a second \<open>.\<close> is ignored. With
  these two pieces \<open>decodeToken\<close> checks that neither is empty, compares the signature
  with the HMAC of the first piece, and parses the first piece.
\<close>

theorem decodeToken_first_two_pieces:
  assumes "46 \<notin> set a" "46 \<notin> set s" "r = [] \<or> hd r = 46"
  shows "decodeToken (a @ 46 # s @ r) k = decodeToken (a @ 46 # s) k \<and>
     decodeToken (a @ 46 # s) k =
       (if a = [] \<or> s = [] then Inl (Error ''Invalid token format'')
        else if s \<noteq> createHmac_digest k a then Inl (Error ''Invalid token'')
        else case JSON_parse (utf8_decode (base64_decode a)) of
               None \<Rightarrow> Inl SyntaxError
             | Some payload \<Rightarrow> Inr payload)"
  using decodeToken_pieces [OF assms, of k] decodeToken_two_pieces [OF assms(1,2), of k]
  by simp

theorem decodeToken_first_two_pieces_witness:
  "decodeToken (ustr ''ab'' @ 46 # ustr ''cd'' @ ustr ''.ef.gh'') (ustr ''k1'')
     = decodeToken (ustr ''ab'' @ 46 # ustr ''cd'') (ustr ''k1'') \<and>
   decodeToken (ustr ''ab'' @ 46 # ustr ''cd'') (ustr ''k1'') = Inl (Error ''Invalid token'')"
proof -
  have d: "46 \<notin> set (ustr ''ab'')" "46 \<notin> set (ustr ''cd'')"
    "ustr ''.ef.gh'' = [] \<or> hd (ustr ''.ef.gh'') = 46"
    by (simp_all add: ustr_def)
  have "length (ustr ''cd'') \<noteq> length (createHmac_digest (ustr ''k1'') (ustr ''ab''))"
    unfolding length_createHmac_digest by (simp add: ustr_def)
  then have "ustr ''cd'' \<noteq> createHmac_digest (ustr ''k1'') (ustr ''ab'')"
    by auto
  moreover have "ustr ''ab'' \<noteq> []" "ustr ''cd'' \<noteq> []"
    by (simp_all add: ustr_def)
  ultimately show ?thesis
    using decodeToken_first_two_pieces [OF d, of "ustr ''k1''"] by simp
qed

text \<open>
  Claim C7: a token that \<open>encodeToken\<close> made with the key \<open>k1\<close>, decoded with a key \<open>k2\<close>
  under which the HMAC-SHA256 signature of the token's first segment differs from the
  one under \<open>k1\<close>, makes \<open>decodeToken\<close> fail with \<open>InvalidSignature\<close>, that is with
  \<open>Error("Invalid token")\<close>.
\<close>

theorem decodeToken_wrong_key:
  assumes "createHmac_digest k2 (takeWhile (\<lambda>c. c \<noteq> 46) (token (encodeToken user data k1)))
    \<noteq> createHmac_digest k1 (takeWhile (\<lambda>c. c \<noteq> 46) (token (encodeToken user data k1)))"
  shows "decodeToken (token (encodeToken user data k1)) k2 = Inl (Error ''Invalid token'')"
  using assms unfolding first_piece_encodeToken decodeToken_encodeToken
  by (simp add: neq_commute)

theorem decodeToken_wrong_key_witness:
  "createHmac_digest (ustr ''k2'') (takeWhile (\<lambda>c. c \<noteq> 46)
      (token (encodeToken (ustr ''u1'') (JObject [(ustr ''role'', JString (ustr ''admin''))]) (ustr ''k1''))))
    \<noteq> createHmac_digest (ustr ''k1'') (takeWhile (\<lambda>c. c \<noteq> 46)
      (token (encodeToken (ustr ''u1'') (JObject [(ustr ''role'', JString (ustr ''admin''))]) (ustr ''k1'')))) \<and>
   decodeToken
     (token (encodeToken (ustr ''u1'') (JObject [(ustr ''role'', JString (ustr ''admin''))]) (ustr ''k1'')))
     (ustr ''k2'') = Inl (Error ''Invalid token'')"
proof -
  have h: "createHmac_digest (ustr ''k2'') (takeWhile (\<lambda>c. c \<noteq> 46)
      (token (encodeToken (ustr ''u1'') (JObject [(ustr ''role'', JString (ustr ''admin''))]) (ustr ''k1''))))
    \<noteq> createHmac_digest (ustr ''k1'') (takeWhile (\<lambda>c. c \<noteq> 46)
      (token (encodeToken (ustr ''u1'') (JObject [(ustr ''role'', JString (ustr ''admin''))]) (ustr ''k1''))))"
    unfolding first_piece_encodeToken example_encodedPayload by (rule example_digests_differ)
  from h decodeToken_wrong_key [OF h] show ?thesis by (rule conjI)
qed

text \<open>
  Claim C10: the token that \<open>encodeToken\<close> returns has exactly one \<open>.\<close>, with a non-empty
  segment before it and a non-empty segment after it, so \<open>decodeToken\<close> on it, with any
  key, never fails with \<open>MalformedToken\<close> (\<open>Error("Invalid token format")\<close>).
\<close>

theorem encodeToken_well_formed:
  "length (filter (\<lambda>c. c = 46) (token (encodeToken user data k))) = 1 \<and>
   takeWhile (\<lambda>c. c \<noteq> 46) (token (encodeToken user data k)) \<noteq> [] \<and>
   tl (dropWhile (\<lambda>c. c \<noteq> 46) (token (encodeToken user data k))) \<noteq> [] \<and>
   decodeToken (token (encodeToken user data k)) k' \<noteq> Inl (Error ''Invalid token format'')"
proof (intro conjI)
  show "length (filter (\<lambda>c. c = 46) (token (encodeToken user data k))) = 1"
    by (simp add: token_encodeToken filter_no_sep encodedPayload_no_dot createHmac_digest_no_dot)
  show "takeWhile (\<lambda>c. c \<noteq> 46) (token (encodeToken user data k)) \<noteq> []"
    by (simp add: first_piece_encodeToken encodedPayload_not_empty)
  show "tl (dropWhile (\<lambda>c. c \<noteq> 46) (token (encodeToken user data k))) \<noteq> []"
    by (simp add: rest_encodeToken createHmac_digest_not_empty)
  show "decodeToken (token (encodeToken user data k)) k' \<noteq> Inl (Error ''Invalid token format'')"
    by (simp add: decodeToken_encodeToken split: option.splits)
qed

theorem encodeToken_well_formed_witness:
  "length (filter (\<lambda>c. c = 46)
     (ustr ''eyJ1c2VyIjoidTEiLCJkYXRhIjp7InJvbGUiOiJhZG1pbiJ9fQ==.ZC4DYcC46FhgP1d64V2JvdSqHmyLHEDTShSBd+v8g+0='')) = 1 \<and>
   decodeToken
     (ustr ''eyJ1c2VyIjoidTEiLCJkYXRhIjp7InJvbGUiOiJhZG1pbiJ9fQ==.ZC4DYcC46FhgP1d64V2JvdSqHmyLHEDTShSBd+v8g+0='')
     (ustr ''k2'') \<noteq> Inl (Error ''Invalid token format'')"
  using encodeToken_well_formed [of "ustr ''u1''" "JObject [(ustr ''role'', JString (ustr ''admin''))]"
      "ustr ''k1''" "ustr ''k2''"]
  unfolding example_token by simp

text \<open>
  Claim C4, as stated: changing any single character of the signature segment of a valid
  token to any different character makes \<open>decodeToken\<close> fail with \<open>InvalidSignature\<close>.
  This fails when the first character of the signature is changed to \<open>.\<close>: the second
  piece of the split is then empty and the failure is \<open>MalformedToken\<close>
  (\<open>Error("Invalid token format")\<close>). The token of the worked example has its signature
  at positions 53 to 96.
\<close>

theorem signature_tamper_counterexample:
  "(token (encodeToken (ustr ''u1'') (JObject [(ustr ''role'', JString (ustr ''admin''))]) (ustr ''k1'')))
      [53 := 46]
     = ustr ''eyJ1c2VyIjoidTEiLCJkYXRhIjp7InJvbGUiOiJhZG1pbiJ9fQ==..C4DYcC46FhgP1d64V2JvdSqHmyLHEDTShSBd+v8g+0='' \<and>
   decodeToken
     (ustr ''eyJ1c2VyIjoidTEiLCJkYXRhIjp7InJvbGUiOiJhZG1pbiJ9fQ==..C4DYcC46FhgP1d64V2JvdSqHmyLHEDTShSBd+v8g+0='')
     (ustr ''k1'') = Inl (Error ''Invalid token format'')"
proof
  show "(token (encodeToken (ustr ''u1'') (JObject [(ustr ''role'', JString (ustr ''admin''))]) (ustr ''k1'')))
      [53 := 46]
     = ustr ''eyJ1c2VyIjoidTEiLCJkYXRhIjp7InJvbGUiOiJhZG1pbiJ9fQ==..C4DYcC46FhgP1d64V2JvdSqHmyLHEDTShSBd+v8g+0=''"
    unfolding example_token by (simp add: ustr_def)
  have t: "ustr ''eyJ1c2VyIjoidTEiLCJkYXRhIjp7InJvbGUiOiJhZG1pbiJ9fQ==..C4DYcC46FhgP1d64V2JvdSqHmyLHEDTShSBd+v8g+0=''
      = ustr ''eyJ1c2VyIjoidTEiLCJkYXRhIjp7InJvbGUiOiJhZG1pbiJ9fQ=='' @ 46 # [] @
        ustr ''.C4DYcC46FhgP1d64V2JvdSqHmyLHEDTShSBd+v8g+0=''"
    by (simp add: ustr_def)
  have d: "46 \<notin> set (ustr ''eyJ1c2VyIjoidTEiLCJkYXRhIjp7InJvbGUiOiJhZG1pbiJ9fQ=='')"
    "46 \<notin> set ([] :: ustring)"
    "ustr ''.C4DYcC46FhgP1d64V2JvdSqHmyLHEDTShSBd+v8g+0='' = [] \<or>
     hd (ustr ''.C4DYcC46FhgP1d64V2JvdSqHmyLHEDTShSBd+v8g+0='') = 46"
    by (simp_all add: ustr_def)
  show "decodeToken
     (ustr ''eyJ1c2VyIjoidTEiLCJkYXRhIjp7InJvbGUiOiJhZG1pbiJ9fQ==..C4DYcC46FhgP1d64V2JvdSqHmyLHEDTShSBd+v8g+0='')
     (ustr ''k1'') = Inl (Error ''Invalid token format'')"
    unfolding t decodeToken_pieces [OF d] by simp
qed

text \<open>
  Claim C4, amended: changing any single character of the signature segment of a valid
  token to any different character makes \<open>decodeToken\<close>, with the token's key, fail:
  with \<open>MalformedToken\<close> when the first character of the signature becomes \<open>.\<close>, and
  with \<open>InvalidSignature\<close> in every other case. Here \<open>p\<close> and \<open>s\<close> are the two segments
  of the token and \<open>i\<close> is the position of the character within the signature.
\<close>

theorem signature_tamper:
  assumes "token (encodeToken user data k) = p @ 46 # s" "46 \<notin> set p"
    and "i < length s" "c \<noteq> s ! i"
  shows "decodeToken (p @ 46 # s[i := c]) k =
     Inl (Error (if i = 0 \<and> c = 46 then ''Invalid token format'' else ''Invalid token''))"
proof -
  from pieces_unique [OF assms(1) [unfolded token_encodeToken, symmetric] assms(2) encodedPayload_no_dot]
  have p: "p = encodedPayload_of user data" and s: "s = createHmac_digest k p"
    by simp_all
  have "p \<noteq> []"
    unfolding p by (rule encodedPayload_not_empty)
  with assms(2-4) show ?thesis
    unfolding s by (intro decodeToken_tampered)
qed

theorem signature_tamper_witness:
  "decodeToken
     (ustr ''eyJ1c2VyIjoidTEiLCJkYXRhIjp7InJvbGUiOiJhZG1pbiJ9fQ==.ZC4DYcC46FhgP1d64V2JvdSqHmyLHEDTShSBd+v8g+0A'')
     (ustr ''k1'') = Inl (Error ''Invalid token'')"
proof -
  let ?p = "ustr ''eyJ1c2VyIjoidTEiLCJkYXRhIjp7InJvbGUiOiJhZG1pbiJ9fQ==''"
  let ?s = "ustr ''ZC4DYcC46FhgP1d64V2JvdSqHmyLHEDTShSBd+v8g+0=''"
  have t: "token (encodeToken (ustr ''u1'') (JObject [(ustr ''role'', JString (ustr ''admin''))]) (ustr ''k1''))
      = ?p @ 46 # ?s"
    unfolding example_token by (simp add: ustr_def)
  have h: "46 \<notin> set ?p" "43 < length ?s" "65 \<noteq> ?s ! 43"
    by (simp_all add: ustr_def)
  have u: "ustr ''eyJ1c2VyIjoidTEiLCJkYXRhIjp7InJvbGUiOiJhZG1pbiJ9fQ==.ZC4DYcC46FhgP1d64V2JvdSqHmyLHEDTShSBd+v8g+0A''
      = ?p @ 46 # ?s[43 := 65]"
    by (simp add: ustr_def)
  from signature_tamper [OF t h] show ?thesis
    unfolding u by simp
qed

text \<open>
  Claim C6, as stated: a token with two non-empty segments and a matching signature whose
  first segment does not decode to JSON of the payload shape makes \<open>decodeToken\<close> fail
  with \<open>MalformedToken\<close>. This fails twice over. The first segment \<open>YQ==\<close> is the text
  \<open>a\<close>, which is no JSON: \<open>decodeToken\<close> ends with the \<open>SyntaxError\<close> of \<open>JSON.parse\<close>. The
  first segment \<open>e30=\<close> is the text \<open>{}\<close>, an object with no \<open>user\<close> and no \<open>data\<close>:
  \<open>decodeToken\<close> returns it.
\<close>

theorem decodeToken_bad_payload_counterexample:
  "decodeToken (ustr ''YQ==.Bcrm/wY/A7n4w7ny97FQ/A6nqYbRhQIYvH6sGh7HWFc='') (ustr ''k1'') = Inl SyntaxError \<and>
   decodeToken (ustr ''e30=.TiaHNZFvnj1DofERSRrj/vRAnvrf2i27obi06qDVPys='') (ustr ''k1'') = Inr (JObject [])"
proof
  have t: "ustr ''YQ==.Bcrm/wY/A7n4w7ny97FQ/A6nqYbRhQIYvH6sGh7HWFc=''
      = ustr ''YQ=='' @ 46 # ustr ''Bcrm/wY/A7n4w7ny97FQ/A6nqYbRhQIYvH6sGh7HWFc=''"
    by (simp add: ustr_def)
  have d: "46 \<notin> set (ustr ''YQ=='')" "46 \<notin> set (ustr ''Bcrm/wY/A7n4w7ny97FQ/A6nqYbRhQIYvH6sGh7HWFc='')"
    by (simp_all add: ustr_def)
  have n: "ustr ''YQ=='' \<noteq> []" "ustr ''Bcrm/wY/A7n4w7ny97FQ/A6nqYbRhQIYvH6sGh7HWFc='' \<noteq> []"
    by (simp_all add: ustr_def)
  show "decodeToken (ustr ''YQ==.Bcrm/wY/A7n4w7ny97FQ/A6nqYbRhQIYvH6sGh7HWFc='') (ustr ''k1'') = Inl SyntaxError"
    unfolding t decodeToken_two_pieces [OF d] hmac_k1_bad example_bad_text example_bad_parse
    using n by simp
next
  have t: "ustr ''e30=.TiaHNZFvnj1DofERSRrj/vRAnvrf2i27obi06qDVPys=''
      = ustr ''e30='' @ 46 # ustr ''TiaHNZFvnj1DofERSRrj/vRAnvrf2i27obi06qDVPys=''"
    by (simp add: ustr_def)
  have d: "46 \<notin> set (ustr ''e30='')" "46 \<notin> set (ustr ''TiaHNZFvnj1DofERSRrj/vRAnvrf2i27obi06qDVPys='')"
    by (simp_all add: ustr_def)
  have n: "ustr ''e30='' \<noteq> []" "ustr ''TiaHNZFvnj1DofERSRrj/vRAnvrf2i27obi06qDVPys='' \<noteq> []"
    by (simp_all add: ustr_def)
  show "decodeToken (ustr ''e30=.TiaHNZFvnj1DofERSRrj/vRAnvrf2i27obi06qDVPys='') (ustr ''k1'') = Inr (JObject [])"
    unfolding t decodeToken_two_pieces [OF d] hmac_k1_obj example_object_text example_object_parse
    using n by simp
qed

text \<open>
  Claim C6, amended: for a token with a non-empty first segment and the matching
  signature, \<open>decodeToken\<close> never fails with \<open>MalformedToken\<close> or \<open>InvalidSignature\<close>: when
  the decoded first segment is no JSON text, the \<open>SyntaxError\<close> of \<open>JSON.parse\<close> reaches
  the caller, and when it is JSON text, the parsed value is returned, whether it has the
  payload shape or not.
\<close>

theorem decodeToken_signed_payload:
  assumes "46 \<notin> set a" "a \<noteq> []"
  shows "decodeToken (a @ 46 # createHmac_digest k a) k =
     (case JSON_parse (utf8_decode (base64_decode a)) of
        None \<Rightarrow> Inl SyntaxError
      | Some payload \<Rightarrow> Inr payload)"
  using decodeToken_two_pieces [OF assms(1) createHmac_digest_no_dot, of k a k] assms(2)
  by (simp add: createHmac_digest_not_empty)

theorem decodeToken_signed_payload_witness:
  "decodeToken (ustr ''e30='' @ 46 # createHmac_digest (ustr ''k1'') (ustr ''e30='')) (ustr ''k1'')
     = Inr (JObject [])"
proof -
  have h: "46 \<notin> set (ustr ''e30='')" "ustr ''e30='' \<noteq> []"
    by (simp_all add: ustr_def)
  from decodeToken_signed_payload [OF h, of "ustr ''k1''"] show ?thesis
    unfolding example_object_text example_object_parse by simp
qed

text \<open>
  Claim C2, as stated: the first segment of the token of
  \<open>encodeToken("u1", {"role":"admin"}, "k1")\<close>, base64-decoded, parses to
  \<open>{"subject":"u1","data":{"role":"admin"}}\<close>. This fails: the payload that
  \<open>encodeToken\<close> serializes has the key \<open>user\<close>, not \<open>subject\<close>.
\<close>

theorem example_payload_key_counterexample:
  "JSON_parse (utf8_decode (base64_decode (takeWhile (\<lambda>c. c \<noteq> 46)
     (token (encodeToken (ustr ''u1'') (JObject [(ustr ''role'', JString (ustr ''admin''))]) (ustr ''k1''))))))
   \<noteq> Some (JObject [(ustr ''subject'', JString (ustr ''u1'')),
                    (ustr ''data'', JObject [(ustr ''role'', JString (ustr ''admin''))])])"
  unfolding first_piece_encodeToken example_encodedPayload example_text example_parse
  by (simp add: ustr_def)

text \<open>
  Claim C2, amended: the token of \<open>encodeToken("u1", {"role":"admin"}, "k1")\<close> is
  \<open>eyJ1...fQ==.ZC4D...g+0=\<close>; its first segment, base64-decoded, is the text
  \<open>{"user":"u1","data":{"role":"admin"}}\<close> and parses to that object; decoding the token
  with the key \<open>k1\<close> returns that same object, and decoding it with the key \<open>k2\<close> fails
  with \<open>InvalidSignature\<close> (\<open>Error("Invalid token")\<close>).
\<close>

theorem example_token_decodes:
  "token (encodeToken (ustr ''u1'') (JObject [(ustr ''role'', JString (ustr ''admin''))]) (ustr ''k1''))
     = ustr ''eyJ1c2VyIjoidTEiLCJkYXRhIjp7InJvbGUiOiJhZG1pbiJ9fQ==.ZC4DYcC46FhgP1d64V2JvdSqHmyLHEDTShSBd+v8g+0='' \<and>
   utf8_decode (base64_decode (takeWhile (\<lambda>c. c \<noteq> 46)
     (token (encodeToken (ustr ''u1'') (JObject [(ustr ''role'', JString (ustr ''admin''))]) (ustr ''k1'')))))
     = ustr ''{\"user\":\"u1\",\"data\":{\"role\":\"admin\"}}'' \<and>
   JSON_parse (ustr ''{\"user\":\"u1\",\"data\":{\"role\":\"admin\"}}'')
     = Some (JObject [(ustr ''user'', JString (ustr ''u1'')),
                      (ustr ''data'', JObject [(ustr ''role'', JString (ustr ''admin''))])]) \<and>
   decodeToken
     (token (encodeToken (ustr ''u1'') (JObject [(ustr ''role'', JString (ustr ''admin''))]) (ustr ''k1'')))
     (ustr ''k1'')
     = Inr (JObject [(ustr ''user'', JString (ustr ''u1'')),
                     (ustr ''data'', JObject [(ustr ''role'', JString (ustr ''admin''))])]) \<and>
   decodeToken
     (token (encodeToken (ustr ''u1'') (JObject [(ustr ''role'', JString (ustr ''admin''))]) (ustr ''k1'')))
     (ustr ''k2'') = Inl (Error ''Invalid token'')"
proof (intro conjI)
  show "token (encodeToken (ustr ''u1'') (JObject [(ustr ''role'', JString (ustr ''admin''))]) (ustr ''k1''))
     = ustr ''eyJ1c2VyIjoidTEiLCJkYXRhIjp7InJvbGUiOiJhZG1pbiJ9fQ==.ZC4DYcC46FhgP1d64V2JvdSqHmyLHEDTShSBd+v8g+0=''"
    by (rule example_token)
  show "utf8_decode (base64_decode (takeWhile (\<lambda>c. c \<noteq> 46)
     (token (encodeToken (ustr ''u1'') (JObject [(ustr ''role'', JString (ustr ''admin''))]) (ustr ''k1'')))))
     = ustr ''{\"user\":\"u1\",\"data\":{\"role\":\"admin\"}}''"
    unfolding first_piece_encodeToken example_encodedPayload by (rule example_text)
  show "JSON_parse (ustr ''{\"user\":\"u1\",\"data\":{\"role\":\"admin\"}}'')
     = Some (JObject [(ustr ''user'', JString (ustr ''u1'')),
                      (ustr ''data'', JObject [(ustr ''role'', JString (ustr ''admin''))])])"
    by (rule example_parse)
  show "decodeToken
     (token (encodeToken (ustr ''u1'') (JObject [(ustr ''role'', JString (ustr ''admin''))]) (ustr ''k1'')))
     (ustr ''k1'')
     = Inr (JObject [(ustr ''user'', JString (ustr ''u1'')),
                     (ustr ''data'', JObject [(ustr ''role'', JString (ustr ''admin''))])])"
    unfolding decodeToken_encodeToken example_encodedPayload example_text example_parse
    by simp
  show "decodeToken
     (token (encodeToken (ustr ''u1'') (JObject [(ustr ''role'', JString (ustr ''admin''))]) (ustr ''k1'')))
     (ustr ''k2'') = Inl (Error ''Invalid token'')"
    unfolding decodeToken_encodeToken example_encodedPayload
    using example_digests_differ by (simp add: neq_commute)
qed

text \<open>
  Claim C1, as stated: decoding the token of \<open>encodeToken(subject, data, secretKey)\<close> with
  the same key returns a payload equal to \<open>{ subject, data }\<close>. This fails on the name
  of the first field: the payload that \<open>encodeToken\<close> serializes and \<open>decodeToken\<close> returns
  has the key \<open>user\<close>, so the token of \<open>encodeToken("u1", {"role":"admin"}, "k1")\<close> does
  not decode to \<open>{"subject":"u1","data":{"role":"admin"}}\<close>.
\<close>

theorem round_trip_subject_key_counterexample:
  "decodeToken
     (token (encodeToken (ustr ''u1'') (JObject [(ustr ''role'', JString (ustr ''admin''))]) (ustr ''k1'')))
     (ustr ''k1'')
   \<noteq> Inr (JObject [(ustr ''subject'', JString (ustr ''u1'')),
                   (ustr ''data'', JObject [(ustr ''role'', JString (ustr ''admin''))])])"
  unfolding decodeToken_encodeToken example_encodedPayload example_text example_parse
  by (simp add: ustr_def)

text \<open>
  Claim C1, amended: for every user string (the spec's subject), every JSON-serializable
  data value and every secret key, decoding the token of \<open>encodeToken\<close> with the same key
  succeeds and returns a payload equal to \<open>{ user, data }\<close>: the object with the keys
  \<open>user\<close> and \<open>data\<close>, in that order, holding that string and that value. The payload
  has no \<open>context\<close> field and none is needed.
\<close>

theorem encode_decode_round_trip:
  assumes "serializable data"
  shows "decodeToken (token (encodeToken user data k)) k
    = Inr (JObject [(ustr ''user'', JString user), (ustr ''data'', data)])"
proof -
  let ?payload = "JObject [(ustr ''user'', JString user), (ustr ''data'', data)]"
  have s: "serializable ?payload"
    using assms by simp
  have "utf8_decode (base64_decode (encodedPayload_of user data)) = JSON_stringify ?payload"
    unfolding encodedPayload_of_def base64_decode_encode
    by (rule utf8_decode_encode [OF well_formed_stringify(1) [OF s]])
  then have "JSON_parse (utf8_decode (base64_decode (encodedPayload_of user data))) = Some ?payload"
    by (simp only: JSON_parse_stringify [OF s])
  then show ?thesis
    unfolding decodeToken_encodeToken by simp
qed

theorem encode_decode_round_trip_witness:
  "serializable (JArray [JNumber (ustr ''-1500''), JNumber (ustr ''0.25''), JBool True, JNull,
      JObject [(ustr ''a\"b'', JString [233, 55357, 56832, 55296, 10])]]) \<and>
   decodeToken
     (token (encodeToken [252, 56320]
        (JArray [JNumber (ustr ''-1500''), JNumber (ustr ''0.25''), JBool True, JNull,
           JObject [(ustr ''a\"b'', JString [233, 55357, 56832, 55296, 10])]])
        (ustr ''k1'')))
     (ustr ''k1'')
   = Inr (JObject [(ustr ''user'', JString [252, 56320]),
        (ustr ''data'', JArray [JNumber (ustr ''-1500''), JNumber (ustr ''0.25''), JBool True, JNull,
           JObject [(ustr ''a\"b'', JString [233, 55357, 56832, 55296, 10])]])])"
proof -
  have s: "serializable (JArray [JNumber (ustr ''-1500''), JNumber (ustr ''0.25''), JBool True, JNull,
      JObject [(ustr ''a\"b'', JString [233, 55357, 56832, 55296, 10])]])"
    by (simp add: ustr_def lex_number_def lex_sign_def lex_int_def lex_frac_def lex_exp_def
        lex_digits_def is_digit_def)
  from s encode_decode_round_trip [OF s] show ?thesis by (rule conjI)
qed

end
